theory Spec2Isabelle
  imports Complex_Main "HOL-Library.List_Lexorder" "HOL-Library.Char_ord"
begin

section \<open>Floating-point values as the code compares them\<close>

text \<open>
  The numeric core of \<^verbatim>\<open>px4tools/ulog.py\<close> works on numpy \<^verbatim>\<open>float64\<close> values. A value
  is modelled by the real number it denotes, or by one of the three special values.
  Comparison, selection and sorting, which is all the root finder and the merge do with a
  number, are exact on floats, so they agree with the same operations on the denoted
  reals; arithmetic (\<^verbatim>\<open>10**x\<close>, products) is the exact real operation, without rounding.
  For the one product taken of a timestamp, \<^verbatim>\<open>timestamp*1e3\<close>, the float result is the exact
  one as long as it stays below \<open>2^53\<close> nanoseconds (some 104 days).
\<close>

datatype fl = Fin real | PInf | NInf | NaN

fun isfinite :: "fl \<Rightarrow> bool" where
  "isfinite (Fin x) = True"
| "isfinite PInf = False"
| "isfinite NInf = False"
| "isfinite NaN = False"

text \<open>IEEE comparison: every comparison with \<open>NaN\<close> is false.\<close>

fun fl_lt :: "fl \<Rightarrow> fl \<Rightarrow> bool" where
  "fl_lt (Fin a) (Fin b) = (a < b)"
| "fl_lt (Fin a) PInf = True"
| "fl_lt NInf (Fin b) = True"
| "fl_lt NInf PInf = True"
| "fl_lt a b = False"

definition fl_gt :: "fl \<Rightarrow> fl \<Rightarrow> bool" where
  "fl_gt a b = fl_lt b a"

fun fl_eq :: "fl \<Rightarrow> fl \<Rightarrow> bool" where
  "fl_eq (Fin a) (Fin b) = (a = b)"
| "fl_eq PInf PInf = True"
| "fl_eq NInf NInf = True"
| "fl_eq a b = False"

definition fl_le :: "fl \<Rightarrow> fl \<Rightarrow> bool" where
  "fl_le a b = (fl_lt a b \<or> fl_eq a b)"

text \<open>pandas' \<^verbatim>\<open>isnull\<close>: only \<open>NaN\<close> is a missing value, an infinity is not.\<close>

fun isnull :: "fl \<Rightarrow> bool" where
  "isnull NaN = True"
| "isnull a = False"

text \<open>
  Python's \<^verbatim>\<open>sorted\<close> uses \<^verbatim>\<open><\<close> only. On the lists it is given here (no \<open>NaN\<close>,
  see \<open>posreal\<close> below) any sort returns the same list; insertion sort is the model.
\<close>

fun insort_fl :: "fl \<Rightarrow> fl list \<Rightarrow> fl list" where
  "insort_fl x [] = [x]"
| "insort_fl x (y # ys) = (if fl_lt y x then y # insort_fl x ys else x # y # ys)"

fun sorted_fl :: "fl list \<Rightarrow> fl list" where
  "sorted_fl [] = []"
| "sorted_fl (x # xs) = insort_fl x (sorted_fl xs)"

section \<open>RootFinder: \<^verbatim>\<open>_smallest_positive_real_root\<close>\<close>

text \<open>An element of the array \<^verbatim>\<open>roots\<close>: a complex number with float components.\<close>

datatype npcomplex = NpComplex (np_real: fl) (np_imag: fl)

text \<open>\<^verbatim>\<open>np.isreal\<close>: the imaginary part compares equal to zero (exactly, no tolerance).\<close>

definition np_isreal :: "npcomplex \<Rightarrow> bool" where
  "np_isreal z = fl_eq (np_imag z) (Fin 0)"

text \<open>
  \<^verbatim>\<open>roots[cond]\<close> with
  \<^verbatim>\<open>cond = np.logical_and(np.isreal(roots), np.real(roots) > min_val)\<close>, and
  \<^verbatim>\<open>posreal = sorted(np.real(roots[cond]))\<close>.
\<close>

definition roots_cond :: "npcomplex list \<Rightarrow> fl \<Rightarrow> npcomplex list" where
  "roots_cond roots min_val = filter (\<lambda>z. np_isreal z \<and> fl_gt (np_real z) min_val) roots"

definition posreal :: "npcomplex list \<Rightarrow> fl \<Rightarrow> fl list" where
  "posreal roots min_val = sorted_fl (map np_real (roots_cond roots min_val))"

text \<open>
  \<^verbatim>\<open>
  def _smallest_positive_real_root(roots, min_val=0, max_val=1e6):
      res = 0
      if len(roots) > 0:
          cond = ...
          posreal = sorted(np.real(roots[cond]))
          if len(posreal) > 0:
              res = posreal[0]
      if not np.isfinite(res) or res < min_val or res > max_val:
          res = np.nan
      return res
  \<close>
  (An Isabelle name cannot start with an underscore.)
\<close>

definition smallest_positive_real_root :: "npcomplex list \<Rightarrow> fl \<Rightarrow> fl \<Rightarrow> fl" where
  "smallest_positive_real_root roots min_val max_val =
     (let res = (if length roots > 0
                 then (case posreal roots min_val of [] \<Rightarrow> Fin 0 | r # _ \<Rightarrow> r)
                 else Fin 0)
      in if \<not> isfinite res \<or> fl_lt res min_val \<or> fl_gt res max_val then NaN else res)"

section \<open>Float arithmetic used by the noise decomposition\<close>

text \<open>\<^verbatim>\<open>10**x\<close>.\<close>

fun pow10 :: "fl \<Rightarrow> fl" where
  "pow10 (Fin x) = Fin (10 powr x)"
| "pow10 PInf = PInf"
| "pow10 NInf = Fin 0"
| "pow10 NaN = NaN"

fun fl_sign :: "fl \<Rightarrow> real" where
  "fl_sign (Fin a) = sgn a"
| "fl_sign PInf = 1"
| "fl_sign NInf = - 1"
| "fl_sign NaN = 0"

definition inf_of_sign :: "real \<Rightarrow> fl" where
  "inf_of_sign s = (if s > 0 then PInf else if s < 0 then NInf else NaN)"

fun fl_mul :: "fl \<Rightarrow> fl \<Rightarrow> fl" where
  "fl_mul (Fin a) (Fin b) = Fin (a * b)"
| "fl_mul NaN b = NaN"
| "fl_mul a NaN = NaN"
| "fl_mul a b = inf_of_sign (fl_sign a * fl_sign b)"

fun fl_div :: "fl \<Rightarrow> fl \<Rightarrow> fl" where
  "fl_div (Fin a) (Fin b) = (if b = 0 then inf_of_sign (sgn a) else Fin (a / b))"
| "fl_div NaN b = NaN"
| "fl_div a NaN = NaN"
| "fl_div (Fin a) b = Fin 0"
| "fl_div a (Fin b) = inf_of_sign (fl_sign a * (if b < 0 then - 1 else 1))"
| "fl_div a b = NaN"

fun fl_sqrt :: "fl \<Rightarrow> fl" where
  "fl_sqrt (Fin a) = (if a < 0 then NaN else Fin (sqrt a))"
| "fl_sqrt PInf = PInf"
| "fl_sqrt a = NaN"

section \<open>AllanDeviationEstimator: the root searches of \<^verbatim>\<open>plot_allan_std_dev\<close>\<close>

text \<open>
  What numpy's least-squares fit hands to the root searches (lines 437 to 456): the fitted
  polynomial \<^verbatim>\<open>p\<close> as a function, and the arrays \<^verbatim>\<open>(pdiff + 0.5).roots()\<close>,
  \<^verbatim>\<open>pdiff.roots()\<close> and \<^verbatim>\<open>(pdiff - 0.5).roots()\<close> of its derivative. The fit itself is
  numpy's and is not modelled.
\<close>

record polyfit =
  fit_p :: "fl \<Rightarrow> fl"
  roots_pdiff_plus :: "npcomplex list"
  roots_pdiff :: "npcomplex list"
  roots_pdiff_minus :: "npcomplex list"

text \<open>\<^verbatim>\<open>log_tau_0 = _smallest_positive_real_root((pdiff + 0.5).roots(), 0, 5)\<close>\<close>

definition log_tau_0 :: "polyfit \<Rightarrow> fl" where
  "log_tau_0 f = smallest_positive_real_root (roots_pdiff_plus f) (Fin 0) (Fin 5)"

text \<open>\<^verbatim>\<open>log_tau_1 = _smallest_positive_real_root((pdiff).roots(), log_tau_0, 5)\<close>\<close>

definition log_tau_1 :: "polyfit \<Rightarrow> fl" where
  "log_tau_1 f = smallest_positive_real_root (roots_pdiff f) (log_tau_0 f) (Fin 5)"

text \<open>\<^verbatim>\<open>log_tau_2 = _smallest_positive_real_root((pdiff - 0.5).roots(), log_tau_1, 5)\<close>\<close>

definition log_tau_2 :: "polyfit \<Rightarrow> fl" where
  "log_tau_2 f = smallest_positive_real_root (roots_pdiff_minus f) (log_tau_1 f) (Fin 5)"

record allan_result =
  sig_rw :: fl
  sig_bi :: fl
  sig_rrw :: fl
  tau_0 :: fl
  tau_1 :: fl
  tau_2 :: fl

text \<open>The guard \<^verbatim>\<open>tau > 0 and np.isfinite(tau)\<close> of each of the three branches.\<close>

definition tau_found :: "fl \<Rightarrow> bool" where
  "tau_found tau = (fl_gt tau (Fin 0) \<and> isfinite tau)"

text \<open>
  Lines 440 to 462 and the returned dictionary (lines 483 to 490). The second component
  is what the three \<^verbatim>\<open>else\<close> branches print, in order.
\<close>

definition noise_parameters :: "polyfit \<Rightarrow> allan_result \<times> string list" where
  "noise_parameters f =
     (let t0 = pow10 (log_tau_0 f);
          (s0, out0) =
            (if tau_found t0 then (fl_mul (pow10 (fit_p f (log_tau_0 f))) (fl_sqrt t0), [])
             else (NaN, [''failed to find tau_0'']));
          t1 = pow10 (log_tau_1 f);
          (s1, out1) =
            (if tau_found t1
             then (fl_mul (pow10 (fit_p f (log_tau_1 f))) (Fin (sqrt (pi / (2 * ln 2)))), [])
             else (NaN, [''failed to find tau_1'']));
          t2 = pow10 (log_tau_2 f);
          (s2, out2) =
            (if tau_found t2
             then (fl_mul (pow10 (fit_p f (log_tau_2 f))) (fl_sqrt (fl_div (Fin 3) t2)), [])
             else (NaN, [''failed to find tau_2'']))
      in (\<lparr>sig_rw = s0, sig_bi = s1, sig_rrw = s2, tau_0 = t0, tau_1 = t1, tau_2 = t2\<rparr>,
          out0 @ out1 @ out2))"

section \<open>The caller's series and what the estimators do to it\<close>

text \<open>The exceptions the modelled code raises.\<close>

datatype error =
  IOError | KeyError | AttributeError | ValueError | TypeError | AssertionError
  | OutOfBoundsTimedelta

text \<open>
  A pandas index entry: a number (a \<^verbatim>\<open>RangeIndex\<close>, \<^verbatim>\<open>Int64Index\<close> or \<^verbatim>\<open>Float64Index\<close>
  value), a time-delta in nanoseconds, or \<^verbatim>\<open>NaT\<close>.
\<close>

datatype idx = Num fl | Td int | NaT

text \<open>The C cast of a float to an integer: towards zero.\<close>

definition trunc :: "real \<Rightarrow> int" where
  "trunc x = (if x < 0 then - \<lfloor>- x\<rfloor> else \<lfloor>x\<rfloor>)"

text \<open>Python's \<^verbatim>\<open>round\<close> to an integer: to the nearest, a tie to the even one.\<close>

definition round_half_even :: "real \<Rightarrow> int" where
  "round_half_even y =
     (let f = \<lfloor>y\<rfloor>; d = y - of_int f
      in if d < 1 / 2 then f else if 1 / 2 < d then f + 1 else if even f then f else f + 1)"

text \<open>
  A unit of \<^verbatim>\<open>pd.TimedeltaIndex\<close>: its length \<open>m\<close> in nanoseconds and the number \<open>p\<close> of
  decimals pandas keeps of a value in that unit (\<^verbatim>\<open>precision_from_unit\<close>).
\<close>

type_synonym td_unit = "int \<times> nat"

definition unit_ns :: td_unit where
  "unit_ns = (1, 0)"

definition unit_s :: td_unit where
  "unit_s = (10 ^ 9, 9)"

text \<open>
  pandas' \<^verbatim>\<open>cast_from_unit\<close>: the whole part and the fraction of the number are scaled
  apart, the fraction rounded to \<open>p\<close> decimals first (not rounded when \<open>p = 0\<close>):
  \<^verbatim>\<open>
      base = <int64_t> ts
      frac = ts - base
      if p:
          frac = round(frac, p)
      return <int64_t> (base * m) + <int64_t> (frac * m)
  \<close>
\<close>

definition cast_from_unit :: "real \<Rightarrow> td_unit \<Rightarrow> int" where
  "cast_from_unit ts u =
     (let m = fst u; p = snd u;
          base = trunc ts;
          frac = ts - of_int base;
          frac' = (if p = 0 then frac else of_int (round_half_even (frac * 10 ^ p)) / 10 ^ p)
      in base * m + trunc (frac' * of_int m))"

text \<open>
  One entry of \<^verbatim>\<open>pd.TimedeltaIndex(values, unit=u)\<close>. A time-delta stays as it is, whatever
  the unit; \<open>NaN\<close> becomes \<^verbatim>\<open>NaT\<close>; a finite number is cast, and the cast raises when the
  result does not fit the signed 64 bits of a time-delta (\<open>-2^63\<close> is \<^verbatim>\<open>NaT\<close>), as it does
  for an infinity.
\<close>

fun to_timedelta :: "td_unit \<Rightarrow> idx \<Rightarrow> error + idx" where
  "to_timedelta u (Td n) = Inr (Td n)"
| "to_timedelta u NaT = Inr NaT"
| "to_timedelta u (Num (Fin x)) =
     (let n = cast_from_unit x u
      in if - (2 ^ 63) < n \<and> n < 2 ^ 63 then Inr (Td n) else Inl OutOfBoundsTimedelta)"
| "to_timedelta u (Num NaN) = Inr NaT"
| "to_timedelta u (Num a) = Inl OutOfBoundsTimedelta"

text \<open>The whole index: the first entry that raises makes the call raise.\<close>

fun TimedeltaIndex :: "idx list \<Rightarrow> td_unit \<Rightarrow> error + idx list" where
  "TimedeltaIndex [] u = Inr []"
| "TimedeltaIndex (v # values) u =
     (case to_timedelta u v of
        Inl e \<Rightarrow> Inl e
      | Inr t \<Rightarrow>
          (case TimedeltaIndex values u of
             Inl e \<Rightarrow> Inl e
           | Inr ts \<Rightarrow> Inr (t # ts)))"

text \<open>A pandas \<^verbatim>\<open>Series\<close>: the object the caller passes as \<^verbatim>\<open>data\<close>.\<close>

record series =
  s_index :: "idx list"
  s_values :: "fl list"

text \<open>
  The first statement of both estimators (lines 412 and 501),
  \<^verbatim>\<open>data.index = pd.TimedeltaIndex(data.index, unit='s')\<close>, as the caller sees it: the
  attribute of the caller's object is assigned when the conversion returns; when it
  raises, nothing has been assigned.
\<close>

definition assign_index :: "series \<Rightarrow> series" where
  "assign_index data =
     (case TimedeltaIndex (s_index data) unit_s of
        Inl e \<Rightarrow> data
      | Inr ix \<Rightarrow> data\<lparr>s_index := ix\<rparr>)"

text \<open>
  \<^verbatim>\<open>plot_allan_std_dev(data, ...)\<close>. Everything after the first statement (\<^verbatim>\<open>resample\<close>,
  \<^verbatim>\<open>agg\<close>, \<^verbatim>\<open>diff\<close>, \<^verbatim>\<open>var\<close>, the fit) builds new objects. The result is the caller's series
  after the call, and the returned dictionary with the printed lines. The parameter \<open>fit\<close>
  stands for the statements up to the fit (lines 412 to 438) as far as they decide what is
  returned: it is \<open>None\<close> when one of them raises (the conversion of the index, fewer
  than two samples, a fit that fails), and the call then returns nothing.
\<close>

definition plot_allan_std_dev ::
  "(series \<Rightarrow> polyfit option) \<Rightarrow> series \<Rightarrow> series \<times> (allan_result \<times> string list) option" where
  "plot_allan_std_dev fit data =
     (let data' = assign_index data
      in (data', map_option noise_parameters (fit data')))"

text \<open>
  \<^verbatim>\<open>plot_autocorrelation(data, ...)\<close>. The first statement is the same assignment;
  \<^verbatim>\<open>data = data.resample(...)\<close> then rebinds the local name only. The parameter \<open>fit\<close>
  stands for lines 501 to 522 in the same way and gives \<^verbatim>\<open>(p - 1/np.e).roots()\<close>; the root
  search runs with the defaults \<^verbatim>\<open>min_val=0\<close>, \<^verbatim>\<open>max_val=1e6\<close>.
\<close>

definition plot_autocorrelation ::
  "(series \<Rightarrow> npcomplex list option) \<Rightarrow> series \<Rightarrow> series \<times> fl option" where
  "plot_autocorrelation fit data =
     (let data' = assign_index data
      in (data', map_option (\<lambda>roots. smallest_positive_real_root roots (Fin 0) (Fin (10 ^ 6)))
                   (fit data')))"

section \<open>MultiTopicStore: \<^verbatim>\<open>PX4MessageDict\<close>\<close>

text \<open>
  A pandas \<^verbatim>\<open>DataFrame\<close>: a row index and the columns in order, each a label and its
  values (all columns of a frame have as many values as the frame has rows). The
  \<^verbatim>\<open>timestamp\<close> column holds integer microseconds; it is a column like the others.
\<close>

record dataframe =
  df_index :: "idx list"
  df_columns :: "(string \<times> fl list) list"

text \<open>
  \<^verbatim>\<open>df[name]\<close> and \<^verbatim>\<open>df.name\<close>: the values of the column with that label. No such
  column raises (\<^verbatim>\<open>KeyError\<close> for the subscript, \<^verbatim>\<open>AttributeError\<close> for the attribute);
  for a label that occurs twice pandas gives a sub-frame, on which the scalar code that
  follows each use here raises.
\<close>

definition column :: "error \<Rightarrow> dataframe \<Rightarrow> string \<Rightarrow> error + fl list" where
  "column missing df name =
     (case filter (\<lambda>c. fst c = name) (df_columns df) of
        [] \<Rightarrow> Inl missing
      | [c] \<Rightarrow> Inr (snd c)
      | _ \<Rightarrow> Inl ValueError)"

text \<open>\<^verbatim>\<open>new_cols[col]\<close> of \<^verbatim>\<open>__init__\<close> (lines 292 to 296).\<close>

definition new_cols :: "string \<Rightarrow> string \<Rightarrow> string" where
  "new_cols topic col = (if col = ''timestamp'' then col else ''t_'' @ topic @ ''__f_'' @ col)"

text \<open>\<^verbatim>\<open>df.rename(columns=...)\<close>: a new frame, every label mapped.\<close>

definition rename :: "(string \<Rightarrow> string) \<Rightarrow> dataframe \<Rightarrow> dataframe" where
  "rename f df = df\<lparr>df_columns := map (\<lambda>c. (f (fst c), snd c)) (df_columns df)\<rparr>"

text \<open>
  \<^verbatim>\<open>pd.TimedeltaIndex(timestamp*1e3, unit='ns')\<close> (lines 298 and 338), entry by entry. The
  timestamps of a log are microseconds since boot; their nanosecond values are taken to
  lie within the 64 bits of a time-delta, where the cast does not raise.
\<close>

definition timestamp_ns :: "fl \<Rightarrow> idx" where
  "timestamp_ns t =
     (case fl_mul t (Fin 1000) of Fin x \<Rightarrow> Td (cast_from_unit x unit_ns) | other \<Rightarrow> NaT)"

definition timestamp_index :: "fl list \<Rightarrow> idx list" where
  "timestamp_index ts = map timestamp_ns ts"

text \<open>The body of the loop of \<^verbatim>\<open>__init__\<close> for one topic (lines 291 to 299).\<close>

definition init_topic :: "string \<Rightarrow> dataframe \<Rightarrow> error + dataframe" where
  "init_topic topic df0 =
     (let df = rename (new_cols topic) df0
      in case column AttributeError df ''timestamp'' of
           Inl e \<Rightarrow> Inl e
         | Inr ts \<Rightarrow> Inr (df\<lparr>df_index := timestamp_index ts\<rparr>))"

text \<open>
  The store is the dictionary's items, with distinct keys, in the order in which the
  dictionary iterates (the order of insertion, since Python 3.7); \<open>map_of\<close> is the lookup
  \<^verbatim>\<open>self[topic]\<close>. \<^verbatim>\<open>__init__\<close> handles the topics in that order and stops at the first
  table that raises.
\<close>

type_synonym store = "(string \<times> dataframe) list"

fun PX4MessageDict :: "store \<Rightarrow> error + store" where
  "PX4MessageDict [] = Inr []"
| "PX4MessageDict ((topic, df) # d) =
     (case init_topic topic df of
        Inl e \<Rightarrow> Inl e
      | Inr df' \<Rightarrow>
          (case PX4MessageDict d of
             Inl e \<Rightarrow> Inl e
           | Inr s \<Rightarrow> Inr ((topic, df') # s)))"

section \<open>Merge: \<^verbatim>\<open>PX4MessageDict.concat\<close>\<close>

text \<open>\<^verbatim>\<open>Series.min()\<close> and \<^verbatim>\<open>Series.max()\<close>: missing values skipped, \<open>NaN\<close> when none is left.\<close>

definition series_min :: "fl list \<Rightarrow> fl" where
  "series_min xs =
     (case filter (\<lambda>x. \<not> isnull x) xs of
        [] \<Rightarrow> NaN
      | y # ys \<Rightarrow> foldl (\<lambda>a b. if fl_lt b a then b else a) y ys)"

definition series_max :: "fl list \<Rightarrow> fl" where
  "series_max xs =
     (case filter (\<lambda>x. \<not> isnull x) xs of
        [] \<Rightarrow> NaN
      | y # ys \<Rightarrow> foldl (\<lambda>a b. if fl_gt b a then b else a) y ys)"

text \<open>
  The loop of lines 316 to 322 over \<^verbatim>\<open>sorted(self.keys())\<close>; the accumulator is
  \<^verbatim>\<open>(ts_min, ts_max)\<close>, \<open>None\<close> while both are \<^verbatim>\<open>None\<close>.
\<close>

fun ts_range :: "store \<Rightarrow> string list \<Rightarrow> (fl \<times> fl) option \<Rightarrow> error + (fl \<times> fl) option" where
  "ts_range self [] acc = Inr acc"
| "ts_range self (topic # topics) acc =
     (case map_of self topic of
        None \<Rightarrow> Inl KeyError
      | Some df \<Rightarrow>
          (case column KeyError df ''timestamp'' of
             Inl e \<Rightarrow> Inl e
           | Inr ts \<Rightarrow>
               (let ts_t_min = series_min ts; ts_t_max = series_max ts
                in ts_range self topics
                     (Some (case acc of
                              None \<Rightarrow> (ts_t_min, ts_t_max)
                            | Some (ts_min, ts_max) \<Rightarrow>
                                (if fl_lt ts_t_min ts_min then ts_t_min else ts_min,
                                 if fl_gt ts_t_max ts_max then ts_t_max else ts_max))))))"

text \<open>
  \<^verbatim>\<open>np.arange(start, stop, step, dtype=np.int64)\<close> as numpy computes it: the length is
  \<open>\<lceil>(stop - start) / step\<rceil>\<close> (none when not positive), the first two entries are
  \<open>start\<close> and \<open>start + step\<close> cast to integers, and the rest continue with their
  difference. A bound that is not finite, or a zero step, raises.
\<close>

definition np_arange :: "fl \<Rightarrow> fl \<Rightarrow> real \<Rightarrow> error + fl list" where
  "np_arange start stop step =
     (case (start, stop) of
        (Fin a, Fin b) \<Rightarrow>
          if step = 0 then Inl ValueError
          else (let len = \<lceil>(b - a) / step\<rceil>; a0 = trunc a; a1 = trunc (a + step)
                in Inr (map (\<lambda>i. Fin (of_int (a0 + int i * (a1 - a0)))) [0..<nat len]))
      | _ \<Rightarrow> Inl ValueError)"

definition range_index :: "nat \<Rightarrow> idx list" where
  "range_index n = map (\<lambda>i. Num (Fin (real i))) [0..<n]"

text \<open>
  Lines 313 to 330: the frame \<^verbatim>\<open>m\<close> the merge starts from. With \<^verbatim>\<open>dt\<close> given the
  timeline is synthetic, whether or not \<^verbatim>\<open>on\<close> is given too; with \<^verbatim>\<open>on\<close> alone it is
  that topic's \<^verbatim>\<open>timestamp\<close> series (with the topic's index); with neither the call
  raises \<^verbatim>\<open>IOError('must pass dt or on')\<close>.
\<close>

definition timeline :: "store \<Rightarrow> string option \<Rightarrow> real option \<Rightarrow> error + dataframe" where
  "timeline self on dt =
     (case dt of
        Some d \<Rightarrow>
          (case ts_range self (sort (map fst self)) None of
             Inl e \<Rightarrow> Inl e
           | Inr None \<Rightarrow> Inl TypeError
           | Inr (Some (ts_min, ts_max)) \<Rightarrow>
               (case np_arange ts_min
                       (case ts_max of Fin b \<Rightarrow> Fin (b - d * 10 ^ 6) | other \<Rightarrow> other)
                       (d * 10 ^ 6) of
                  Inl e \<Rightarrow> Inl e
                | Inr timestamps \<Rightarrow>
                    Inr \<lparr>df_index = range_index (length timestamps),
                         df_columns = [(''timestamp'', timestamps)]\<rparr>))
      | None \<Rightarrow>
          (case on of
             Some topic \<Rightarrow>
               (case map_of self topic of
                  None \<Rightarrow> Inl KeyError
                | Some df \<Rightarrow>
                    (case column AttributeError df ''timestamp'' of
                       Inl e \<Rightarrow> Inl e
                     | Inr timestamps \<Rightarrow>
                         Inr \<lparr>df_index = df_index df,
                              df_columns = [(''timestamp'', timestamps)]\<rparr>))
           | None \<Rightarrow> Inl IOError))"

text \<open>
  \<^verbatim>\<open>pd.merge_asof(left, right, 'timestamp')\<close> (direction backward, exact matches
  allowed). For a left key \<open>t\<close>, the row of \<open>right\<close> taken is the last one whose key is at
  most \<open>t\<close>.
\<close>

definition asof_pos :: "fl list \<Rightarrow> fl \<Rightarrow> nat option" where
  "asof_pos rk t =
     (case filter (\<lambda>j. fl_le (rk ! j) t) [0..<length rk] of
        [] \<Rightarrow> None
      | j # js \<Rightarrow> Some (last (j # js)))"

definition asof_take :: "fl list \<Rightarrow> fl list \<Rightarrow> fl list \<Rightarrow> fl list" where
  "asof_take lk rk v = map (\<lambda>t. case asof_pos rk t of None \<Rightarrow> NaN | Some j \<Rightarrow> v ! j) lk"

fun is_monotonic_increasing :: "fl list \<Rightarrow> bool" where
  "is_monotonic_increasing (a # b # xs) = (fl_le a b \<and> is_monotonic_increasing (b # xs))"
| "is_monotonic_increasing xs = True"

definition nonkey :: "dataframe \<Rightarrow> (string \<times> fl list) list" where
  "nonkey df = filter (\<lambda>c. fst c \<noteq> ''timestamp'') (df_columns df)"

text \<open>
  The join raises when a key is missing or a key column is not sorted. The result has the
  columns of \<open>left\<close>, then those of \<open>right\<close> but its key; a label the two sides share
  (the key apart) gets the suffix \<^verbatim>\<open>_x\<close> on the left and \<^verbatim>\<open>_y\<close> on the right.
\<close>

definition merge_asof :: "dataframe \<Rightarrow> dataframe \<Rightarrow> error + dataframe" where
  "merge_asof left right =
     (case column KeyError left ''timestamp'' of
        Inl e \<Rightarrow> Inl e
      | Inr lk \<Rightarrow>
          (case column KeyError right ''timestamp'' of
             Inl e \<Rightarrow> Inl e
           | Inr rk \<Rightarrow>
               if list_ex isnull lk \<or> list_ex isnull rk then Inl ValueError
               else if is_monotonic_increasing lk \<and> is_monotonic_increasing rk
               then (let overlap = filter (\<lambda>n. n \<in> set (map fst (nonkey right)))
                                     (map fst (nonkey left))
                     in Inr \<lparr>df_index = range_index (length lk),
                             df_columns =
                               map (\<lambda>c. (if fst c \<in> set overlap then fst c @ ''_x'' else fst c,
                                         snd c))
                                 (df_columns left) @
                               map (\<lambda>c. (if fst c \<in> set overlap then fst c @ ''_y'' else fst c,
                                         asof_take lk rk (snd c)))
                                 (nonkey right)\<rparr>)
               else Inl ValueError))"

text \<open>The loop of lines 333 to 337 (the \<^verbatim>\<open>verbose\<close> printing left out).\<close>

fun merge_topics :: "store \<Rightarrow> dataframe \<Rightarrow> string list \<Rightarrow> error + dataframe" where
  "merge_topics self m [] = Inr m"
| "merge_topics self m (topic # topics) =
     (case map_of self topic of
        None \<Rightarrow> Inl KeyError
      | Some df \<Rightarrow>
          (case merge_asof m df of
             Inl e \<Rightarrow> Inl e
           | Inr m' \<Rightarrow> merge_topics self m' topics))"

text \<open>\<^verbatim>\<open>ffill\<close> (\<^verbatim>\<open>pad\<close> is its older name) and \<^verbatim>\<open>bfill\<close> on one column.\<close>

fun ffill_from :: "fl \<Rightarrow> fl list \<Rightarrow> fl list" where
  "ffill_from prev [] = []"
| "ffill_from prev (x # xs) =
     (if isnull x then prev # ffill_from prev xs else x # ffill_from x xs)"

definition ffill_col :: "fl list \<Rightarrow> fl list" where
  "ffill_col xs = ffill_from NaN xs"

definition bfill_col :: "fl list \<Rightarrow> fl list" where
  "bfill_col xs = rev (ffill_col (rev xs))"

definition map_columns :: "(fl list \<Rightarrow> fl list) \<Rightarrow> dataframe \<Rightarrow> dataframe" where
  "map_columns f m = m\<lparr>df_columns := map (\<lambda>c. (fst c, f (snd c))) (df_columns m)\<rparr>"

definition ffill :: "dataframe \<Rightarrow> dataframe" where
  "ffill m = map_columns ffill_col m"

definition bfill :: "dataframe \<Rightarrow> dataframe" where
  "bfill m = map_columns bfill_col m"

text \<open>\<^verbatim>\<open>np.all(np.isfinite(m))\<close>: every value of every column.\<close>

definition all_isfinite :: "dataframe \<Rightarrow> bool" where
  "all_isfinite m = list_all (\<lambda>c. list_all isfinite (snd c)) (df_columns m)"

text \<open>Lines 331 and 332: \<^verbatim>\<open>if topics is None: topics = self.keys()\<close>.\<close>

definition selected_topics :: "store \<Rightarrow> string list option \<Rightarrow> string list" where
  "selected_topics self topics = (case topics of None \<Rightarrow> map fst self | Some ts \<Rightarrow> ts)"

text \<open>Lines 313 to 338: \<^verbatim>\<open>concat\<close> up to the fills, the joined table with its new index.\<close>

definition concat_merged ::
  "store \<Rightarrow> string list option \<Rightarrow> string option \<Rightarrow> real option \<Rightarrow> error + dataframe" where
  "concat_merged self topics on dt =
     (case timeline self on dt of
        Inl e \<Rightarrow> Inl e
      | Inr m0 \<Rightarrow>
          (case merge_topics self m0 (selected_topics self topics) of
             Inl e \<Rightarrow> Inl e
           | Inr m \<Rightarrow>
               (case column AttributeError m ''timestamp'' of
                  Inl e \<Rightarrow> Inl e
                | Inr ts \<Rightarrow> Inr (m\<lparr>df_index := timestamp_index ts\<rparr>))))"

text \<open>
  Lines 339 to 342, the three fill passes in place:
  \<^verbatim>\<open>m.ffill(inplace=True); m.bfill(inplace=True); m.pad(inplace=True)\<close>.
\<close>

definition concat_filled ::
  "store \<Rightarrow> string list option \<Rightarrow> string option \<Rightarrow> real option \<Rightarrow> error + dataframe" where
  "concat_filled self topics on dt =
     (case concat_merged self topics on dt of
        Inl e \<Rightarrow> Inl e
      | Inr m \<Rightarrow> Inr (ffill (bfill (ffill m))))"

text \<open>
  \<^verbatim>\<open>PX4MessageDict.concat(self, topics=None, on=None, dt=None)\<close> (named \<open>concat_msgs\<close>:
  \<open>concat\<close> is a list function of HOL).
\<close>

definition concat_msgs ::
  "store \<Rightarrow> string list option \<Rightarrow> string option \<Rightarrow> real option \<Rightarrow> error + dataframe" where
  "concat_msgs self topics on dt =
     (case concat_filled self topics on dt of
        Inl e \<Rightarrow> Inl e
      | Inr m \<Rightarrow> if all_isfinite m then Inr m else Inl AssertionError)"

section \<open>Notions used to state the properties of the merge\<close>

text \<open>The labels a topic of the store adds to the merged table: those of its columns but the key.\<close>

definition topic_labels :: "store \<Rightarrow> string \<Rightarrow> string list" where
  "topic_labels self topic =
     (case map_of self topic of None \<Rightarrow> [] | Some df \<Rightarrow> map fst (nonkey df))"

text \<open>The columns of a topic as the as-of join against the timeline \<open>lk\<close> reads them.\<close>

definition topic_joined :: "store \<Rightarrow> fl list \<Rightarrow> string \<Rightarrow> (string \<times> fl list) list" where
  "topic_joined self lk topic =
     (case map_of self topic of
        None \<Rightarrow> []
      | Some df \<Rightarrow>
          (case column KeyError df ''timestamp'' of
             Inl e \<Rightarrow> []
           | Inr rk \<Rightarrow> map (\<lambda>c. (fst c, asof_take lk rk (snd c))) (nonkey df)))"

section \<open>Properties of the root finder\<close>

lemma set_insort_fl: "set (insort_fl x xs) = insert x (set xs)"
  by (induction xs) auto

lemma set_sorted_fl: "set (sorted_fl xs) = set xs"
  by (induction xs) (auto simp: set_insort_fl)

lemma fl_lt_asym: "fl_lt a b \<Longrightarrow> \<not> fl_lt b a"
  by (cases a; cases b) auto

lemma fl_lt_irrefl: "\<not> fl_lt a a"
  by (cases a) auto

lemma fl_not_lt_trans: "b \<noteq> NaN \<Longrightarrow> \<not> fl_lt b a \<Longrightarrow> \<not> fl_lt c b \<Longrightarrow> \<not> fl_lt c a"
  by (cases a; cases b; cases c) auto

lemma hd_insort_fl: "hd (insort_fl x xs) = (if xs \<noteq> [] \<and> fl_lt (hd xs) x then hd xs else x)"
  by (cases xs) auto

lemma sorted_fl_eq_Nil: "sorted_fl xs = [] \<longleftrightarrow> xs = []"
proof (cases xs)
  case Nil
  then show ?thesis by simp
next
  case (Cons x ys)
  then show ?thesis by (cases "sorted_fl ys") auto
qed

lemma hd_sorted_fl_min:
  "xs \<noteq> [] \<Longrightarrow> NaN \<notin> set xs \<Longrightarrow>
     hd (sorted_fl xs) \<in> set xs \<and> (\<forall>y\<in>set xs. \<not> fl_lt y (hd (sorted_fl xs)))"
proof (induction xs)
  case Nil
  then show ?case by simp
next
  case (Cons x xs)
  show ?case
  proof (cases "xs = []")
    case True
    then show ?thesis by (simp add: fl_lt_irrefl)
  next
    case False
    with Cons have ih: "hd (sorted_fl xs) \<in> set xs" "\<forall>y\<in>set xs. \<not> fl_lt y (hd (sorted_fl xs))"
      by auto
    have ne: "sorted_fl xs \<noteq> []" using False by (simp add: sorted_fl_eq_Nil)
    have hn: "hd (sorted_fl xs) \<noteq> NaN" using ih(1) Cons.prems by auto
    show ?thesis
    proof (cases "fl_lt (hd (sorted_fl xs)) x")
      case True
      then have "hd (sorted_fl (x # xs)) = hd (sorted_fl xs)"
        using ne by (simp add: hd_insort_fl)
      with ih True show ?thesis by (auto dest: fl_lt_asym)
    next
      case nlt: False
      then have h: "hd (sorted_fl (x # xs)) = x"
        by (simp add: hd_insort_fl)
      have "\<not> fl_lt y x" if "y \<in> set xs" for y
        using fl_not_lt_trans[OF hn nlt] ih(2) that by blast
      then show ?thesis using h by (auto simp: fl_lt_irrefl)
    qed
  qed
qed

lemma np_isreal_iff: "np_isreal z \<longleftrightarrow> np_imag z = Fin 0"
  unfolding np_isreal_def by (cases "np_imag z") auto

lemma fl_gt_not_NaN: "fl_gt a b \<Longrightarrow> a \<noteq> NaN \<and> b \<noteq> NaN"
  unfolding fl_gt_def by (cases a; cases b) auto

lemma roots_cond_NaN: "roots_cond roots NaN = []"
  unfolding roots_cond_def fl_gt_def by (simp add: filter_empty_conv)

lemma in_roots_cond:
  "z \<in> set (roots_cond roots min_val) \<longleftrightarrow>
     z \<in> set roots \<and> np_imag z = Fin 0 \<and> fl_gt (np_real z) min_val"
  unfolding roots_cond_def by (auto simp: np_isreal_iff)

lemma roots_cond_Nil_len: "roots_cond [] m = []"
  by (simp add: roots_cond_def)

text \<open>The value \<^verbatim>\<open>res\<close> holds before the final check.\<close>

lemma spr_not_found:
  "roots_cond roots min_val = [] \<Longrightarrow>
     smallest_positive_real_root roots min_val max_val =
       (if fl_lt (Fin 0) min_val \<or> fl_gt (Fin 0) max_val then NaN else Fin 0)"
  by (simp add: smallest_positive_real_root_def posreal_def)

lemma spr_found:
  assumes "roots_cond roots min_val \<noteq> []"
  shows "\<exists>r\<in>set (map np_real (roots_cond roots min_val)).
           (\<forall>y\<in>set (map np_real (roots_cond roots min_val)). \<not> fl_lt y r) \<and>
           smallest_positive_real_root roots min_val max_val =
             (if isfinite r \<and> \<not> fl_gt r max_val then r else NaN)"
proof -
  let ?xs = "map np_real (roots_cond roots min_val)"
  have ne: "?xs \<noteq> []" using assms by simp
  have nn: "NaN \<notin> set ?xs"
    using fl_gt_not_NaN by (fastforce simp: in_roots_cond)
  from hd_sorted_fl_min[OF ne nn]
  have hin: "hd (sorted_fl ?xs) \<in> set ?xs"
    and hmin: "\<forall>y\<in>set ?xs. \<not> fl_lt y (hd (sorted_fl ?xs))" by blast+
  have sne: "sorted_fl ?xs \<noteq> []" using ne by (simp add: sorted_fl_eq_Nil)
  then obtain r rs where srt: "sorted_fl ?xs = r # rs" by (cases "sorted_fl ?xs") auto
  then have hr: "hd (sorted_fl ?xs) = r" by simp
  have "fl_gt r min_val" using hin hr by (auto simp: in_roots_cond)
  then have nlt: "\<not> fl_lt r min_val" by (auto simp: fl_gt_def dest: fl_lt_asym)
  have rne: "roots \<noteq> []" using assms by (auto simp: roots_cond_def)
  have "smallest_positive_real_root roots min_val max_val =
          (if isfinite r \<and> \<not> fl_gt r max_val then r else NaN)"
    using srt nlt rne by (simp add: smallest_positive_real_root_def posreal_def)
  with hin hmin hr show ?thesis by metis
qed

lemma spr_range:
  "smallest_positive_real_root roots min_val max_val = NaN \<or>
   (\<exists>x. smallest_positive_real_root roots min_val max_val = Fin x \<and>
        \<not> fl_lt (Fin x) min_val \<and> \<not> fl_gt (Fin x) max_val)"
proof -
  define res where "res = (if length roots > 0
                 then (case posreal roots min_val of [] \<Rightarrow> Fin 0 | r # _ \<Rightarrow> r)
                 else Fin 0)"
  have eq: "smallest_positive_real_root roots min_val max_val =
     (if \<not> isfinite res \<or> fl_lt res min_val \<or> fl_gt res max_val then NaN else res)"
    by (simp add: smallest_positive_real_root_def res_def Let_def)
  show ?thesis
  proof (cases "\<not> isfinite res \<or> fl_lt res min_val \<or> fl_gt res max_val")
    case True
    then show ?thesis using eq by simp
  next
    case False
    then obtain x where "res = Fin x" by (cases res) auto
    with False eq show ?thesis by auto
  qed
qed

lemma spr_NaN_bound: "smallest_positive_real_root roots NaN (Fin 5) = Fin 0"
  by (simp add: spr_not_found roots_cond_NaN fl_gt_def)

lemma fl_le_Fin: "fl_le (Fin a) (Fin b) \<longleftrightarrow> a \<le> b"
  by (auto simp: fl_le_def)

lemma spr_lower:
  assumes "min_val \<noteq> NaN"
  shows "smallest_positive_real_root roots min_val (Fin 5) = NaN \<or>
     (fl_le min_val (smallest_positive_real_root roots min_val (Fin 5)) \<and>
      fl_le (smallest_positive_real_root roots min_val (Fin 5)) (Fin 5))"
proof -
  from spr_range[of roots min_val "Fin 5"] show ?thesis
  proof
    assume "smallest_positive_real_root roots min_val (Fin 5) = NaN"
    then show ?thesis by simp
  next
    assume "\<exists>x. smallest_positive_real_root roots min_val (Fin 5) = Fin x \<and>
        \<not> fl_lt (Fin x) min_val \<and> \<not> fl_gt (Fin x) (Fin 5)"
    then obtain x where x: "smallest_positive_real_root roots min_val (Fin 5) = Fin x"
      "\<not> fl_lt (Fin x) min_val" "\<not> fl_gt (Fin x) (Fin 5)" by blast
    have "fl_le min_val (Fin x)" using x(2) assms by (cases min_val) (auto simp: fl_le_def)
    moreover have "fl_le (Fin x) (Fin 5)" using x(3) by (auto simp: fl_le_def fl_gt_def)
    ultimately show ?thesis using x(1) by simp
  qed
qed

lemma log_tau_range:
  "(log_tau_0 f = NaN \<or> (\<exists>x. log_tau_0 f = Fin x \<and> 0 \<le> x \<and> x \<le> 5)) \<and>
   (log_tau_1 f = NaN \<or> (\<exists>x. log_tau_1 f = Fin x \<and> 0 \<le> x \<and> x \<le> 5)) \<and>
   (log_tau_2 f = NaN \<or> (\<exists>x. log_tau_2 f = Fin x \<and> 0 \<le> x \<and> x \<le> 5))"
proof -
  have step: "smallest_positive_real_root roots m (Fin 5) = NaN \<or>
        (\<exists>x. smallest_positive_real_root roots m (Fin 5) = Fin x \<and> 0 \<le> x \<and> x \<le> 5)"
    if "m = NaN \<or> (\<exists>v. m = Fin v \<and> 0 \<le> v \<and> v \<le> 5)" for roots m
  proof (cases "m = NaN")
    case True
    then show ?thesis by (simp add: spr_NaN_bound)
  next
    case False
    with that obtain v where v: "m = Fin v" "0 \<le> v" by blast
    from spr_range[of roots m "Fin 5"] show ?thesis
      using v by (auto simp: fl_gt_def)
  qed
  have a: "log_tau_0 f = NaN \<or> (\<exists>x. log_tau_0 f = Fin x \<and> 0 \<le> x \<and> x \<le> 5)"
    unfolding log_tau_0_def by (rule step) simp
  have b: "log_tau_1 f = NaN \<or> (\<exists>x. log_tau_1 f = Fin x \<and> 0 \<le> x \<and> x \<le> 5)"
    unfolding log_tau_1_def by (rule step) (rule a)
  have c: "log_tau_2 f = NaN \<or> (\<exists>x. log_tau_2 f = Fin x \<and> 0 \<le> x \<and> x \<le> 5)"
    unfolding log_tau_2_def by (rule step) (rule b)
  from a b c show ?thesis by blast
qed

lemma pow10_range:
  assumes "l = NaN \<or> (\<exists>x. l = Fin x \<and> 0 \<le> x \<and> x \<le> 5)" "pow10 l \<noteq> NaN"
  shows "\<exists>y. pow10 l = Fin y \<and> 1 \<le> y \<and> y \<le> 10 ^ 5"
proof -
  from assms obtain x where x: "l = Fin x" "0 \<le> x" "x \<le> 5" by auto
  have "(10::real) powr 0 \<le> 10 powr x" using x(2) by (intro powr_mono) auto
  moreover have "(10::real) powr x \<le> 10 powr 5" using x(3) by (intro powr_mono) auto
  moreover have "(10::real) powr 5 = 10 ^ 5" by (simp add: powr_numeral)
  ultimately show ?thesis using x(1) by simp
qed

lemma noise_parameters_taus:
  "tau_0 (fst (noise_parameters f)) = pow10 (log_tau_0 f) \<and>
   tau_1 (fst (noise_parameters f)) = pow10 (log_tau_1 f) \<and>
   tau_2 (fst (noise_parameters f)) = pow10 (log_tau_2 f)"
  by (simp add: noise_parameters_def Let_def split: prod.splits)

text \<open>
  C1. The claim: whenever no root has zero imaginary part and a real part above \<open>min\<close> and
  within \<open>max\<close>, the root finder returns \<open>NaN\<close>, so a root that is not found is never
  reported as a number. The code at \<^verbatim>\<open>roots = [-2]\<close>, \<^verbatim>\<open>min_val = 0\<close>, \<^verbatim>\<open>max_val = 5\<close>:
  no root qualifies, \<^verbatim>\<open>res\<close> keeps its initial \<open>0\<close>, which is neither below \<open>0\<close> nor above
  \<open>5\<close>, and \<open>0\<close> is returned. For the fit \<^verbatim>\<open>p = 0.05 x^2 - 0.3 x\<close>, whose derivative plus
  \<open>0.5\<close> has that root, \<^verbatim>\<open>plot_allan_std_dev\<close> reports \<open>tau_0 = 10**0 = 1\<close> and the
  number \<open>1\<close> for \<open>sig_rw\<close>, and does not print \<^verbatim>\<open>failed to find tau_0\<close>;
  \<^verbatim>\<open>plot_autocorrelation\<close>, on the same roots, returns the correlation time \<open>0\<close>.
\<close>

theorem root_not_found_reported_as_zero:
  "smallest_positive_real_root [NpComplex (Fin (- 2)) (Fin 0)] (Fin 0) (Fin 5) = Fin 0 \<and>
   tau_0 (fst (noise_parameters
     \<lparr>fit_p = (\<lambda>x. case x of Fin v \<Rightarrow> Fin (v ^ 2 / 20 - 3 * v / 10) | _ \<Rightarrow> NaN),
      roots_pdiff_plus = [NpComplex (Fin (- 2)) (Fin 0)],
      roots_pdiff = [NpComplex (Fin 3) (Fin 0)],
      roots_pdiff_minus = [NpComplex (Fin 8) (Fin 0)]\<rparr>)) = Fin 1 \<and>
   sig_rw (fst (noise_parameters
     \<lparr>fit_p = (\<lambda>x. case x of Fin v \<Rightarrow> Fin (v ^ 2 / 20 - 3 * v / 10) | _ \<Rightarrow> NaN),
      roots_pdiff_plus = [NpComplex (Fin (- 2)) (Fin 0)],
      roots_pdiff = [NpComplex (Fin 3) (Fin 0)],
      roots_pdiff_minus = [NpComplex (Fin 8) (Fin 0)]\<rparr>)) = Fin 1 \<and>
   snd (noise_parameters
     \<lparr>fit_p = (\<lambda>x. case x of Fin v \<Rightarrow> Fin (v ^ 2 / 20 - 3 * v / 10) | _ \<Rightarrow> NaN),
      roots_pdiff_plus = [NpComplex (Fin (- 2)) (Fin 0)],
      roots_pdiff = [NpComplex (Fin 3) (Fin 0)],
      roots_pdiff_minus = [NpComplex (Fin 8) (Fin 0)]\<rparr>) = [''failed to find tau_2''] \<and>
   snd (plot_autocorrelation (\<lambda>d. Some [NpComplex (Fin (- 2)) (Fin 0)]) data) = Some (Fin 0)"
proof -
  let ?f = "\<lparr>fit_p = (\<lambda>x. case x of Fin v \<Rightarrow> Fin (v ^ 2 / 20 - 3 * v / 10) | _ \<Rightarrow> NaN),
      roots_pdiff_plus = [NpComplex (Fin (- 2)) (Fin 0)],
      roots_pdiff = [NpComplex (Fin 3) (Fin 0)],
      roots_pdiff_minus = [NpComplex (Fin 8) (Fin 0)]\<rparr>"
  have r: "smallest_positive_real_root [NpComplex (Fin (- 2)) (Fin 0)] (Fin 0) (Fin 5) = Fin 0"
    by (simp add: smallest_positive_real_root_def posreal_def roots_cond_def np_isreal_def
        fl_gt_def)
  have l0: "log_tau_0 ?f = Fin 0" by (simp add: log_tau_0_def r)
  have l1: "log_tau_1 ?f = Fin 3"
    by (simp add: log_tau_1_def l0 smallest_positive_real_root_def posreal_def roots_cond_def
        np_isreal_def fl_gt_def)
  have l2: "log_tau_2 ?f = NaN"
    by (simp add: log_tau_2_def l1 smallest_positive_real_root_def posreal_def roots_cond_def
        np_isreal_def fl_gt_def)
  have np: "noise_parameters ?f =
     (\<lparr>sig_rw = Fin 1,
       sig_bi = fl_mul (pow10 (Fin (3 ^ 2 / 20 - 3 * 3 / 10))) (Fin (sqrt (pi / (2 * ln 2)))),
       sig_rrw = NaN, tau_0 = Fin 1, tau_1 = Fin (10 powr 3), tau_2 = NaN\<rparr>,
      [''failed to find tau_2''])"
    by (simp add: noise_parameters_def l0 l1 l2 tau_found_def fl_gt_def Let_def)
  have ac: "snd (plot_autocorrelation (\<lambda>d. Some [NpComplex (Fin (- 2)) (Fin 0)]) data) =
      Some (Fin 0)"
    by (simp add: plot_autocorrelation_def smallest_positive_real_root_def posreal_def
        roots_cond_def np_isreal_def fl_gt_def)
  show ?thesis using r ac by (simp add: np)
qed

theorem root_not_found_reported_as_zero_witness:
  "smallest_positive_real_root [NpComplex (Fin (- 2)) (Fin 0)] (Fin 0) (Fin 5) \<noteq> NaN"
  using root_not_found_reported_as_zero [of "\<lparr>s_index = [], s_values = []\<rparr>"] by simp

text \<open>
  C2, as claimed: the search for \<open>tau_1\<close> starts from the value found for \<open>tau_0\<close>, or from
  \<open>0\<close> if that search failed. The code passes \<^verbatim>\<open>log_tau_0\<close> itself. With
  \<^verbatim>\<open>pdiff = 0.2 - 0.1 x\<close> the roots are \<open>7\<close>, \<open>2\<close> and \<open>-3\<close>: the search for \<open>tau_0\<close> fails
  with \<open>NaN\<close> (\<open>7 > 5\<close>), the bound of the next search is \<open>NaN\<close>, under which no root
  qualifies, and \<^verbatim>\<open>log_tau_1\<close> is \<open>0\<close>, where a search from \<open>0\<close> would have found \<open>2\<close>.
\<close>

theorem failed_tau_0_bound_is_nan:
  "log_tau_0 \<lparr>fit_p = (\<lambda>x. case x of Fin v \<Rightarrow> Fin (v / 5 - v ^ 2 / 20) | _ \<Rightarrow> NaN),
       roots_pdiff_plus = [NpComplex (Fin 7) (Fin 0)],
       roots_pdiff = [NpComplex (Fin 2) (Fin 0)],
       roots_pdiff_minus = [NpComplex (Fin (- 3)) (Fin 0)]\<rparr> = NaN \<and>
   log_tau_1 \<lparr>fit_p = (\<lambda>x. case x of Fin v \<Rightarrow> Fin (v / 5 - v ^ 2 / 20) | _ \<Rightarrow> NaN),
       roots_pdiff_plus = [NpComplex (Fin 7) (Fin 0)],
       roots_pdiff = [NpComplex (Fin 2) (Fin 0)],
       roots_pdiff_minus = [NpComplex (Fin (- 3)) (Fin 0)]\<rparr> = Fin 0 \<and>
   smallest_positive_real_root [NpComplex (Fin 2) (Fin 0)] (Fin 0) (Fin 5) = Fin 2"
  by (simp add: log_tau_0_def log_tau_1_def
      smallest_positive_real_root_def posreal_def roots_cond_def np_isreal_def fl_gt_def)

text \<open>
  C2, amended: each search takes as its lower bound the value the previous search
  returned, unchanged (a \<open>NaN\<close> is handed on as the bound, it is not replaced by \<open>0\<close>); the
  search for \<open>tau_0\<close> starts from \<open>0\<close>, and all three share the upper bound \<open>5\<close>. A result
  is \<open>NaN\<close> or lies between its lower bound, when that is a number, and \<open>5\<close>.
\<close>

theorem root_search_bounds:
  "log_tau_0 f = smallest_positive_real_root (roots_pdiff_plus f) (Fin 0) (Fin 5) \<and>
   log_tau_1 f = smallest_positive_real_root (roots_pdiff f) (log_tau_0 f) (Fin 5) \<and>
   log_tau_2 f = smallest_positive_real_root (roots_pdiff_minus f) (log_tau_1 f) (Fin 5) \<and>
   (log_tau_0 f = NaN \<or> (fl_le (Fin 0) (log_tau_0 f) \<and> fl_le (log_tau_0 f) (Fin 5))) \<and>
   (log_tau_0 f \<noteq> NaN \<longrightarrow>
      log_tau_1 f = NaN \<or> (fl_le (log_tau_0 f) (log_tau_1 f) \<and> fl_le (log_tau_1 f) (Fin 5))) \<and>
   (log_tau_1 f \<noteq> NaN \<longrightarrow>
      log_tau_2 f = NaN \<or> (fl_le (log_tau_1 f) (log_tau_2 f) \<and> fl_le (log_tau_2 f) (Fin 5)))"
proof (intro conjI impI)
  show "log_tau_0 f = smallest_positive_real_root (roots_pdiff_plus f) (Fin 0) (Fin 5)"
    by (simp add: log_tau_0_def)
  show "log_tau_1 f = smallest_positive_real_root (roots_pdiff f) (log_tau_0 f) (Fin 5)"
    by (simp add: log_tau_1_def)
  show "log_tau_2 f = smallest_positive_real_root (roots_pdiff_minus f) (log_tau_1 f) (Fin 5)"
    by (simp add: log_tau_2_def)
  show "log_tau_0 f = NaN \<or> (fl_le (Fin 0) (log_tau_0 f) \<and> fl_le (log_tau_0 f) (Fin 5))"
    unfolding log_tau_0_def by (rule spr_lower) simp
  show "log_tau_1 f = NaN \<or> (fl_le (log_tau_0 f) (log_tau_1 f) \<and> fl_le (log_tau_1 f) (Fin 5))"
    if "log_tau_0 f \<noteq> NaN"
    unfolding log_tau_1_def using spr_lower[OF that] by blast
  show "log_tau_2 f = NaN \<or> (fl_le (log_tau_1 f) (log_tau_2 f) \<and> fl_le (log_tau_2 f) (Fin 5))"
    if "log_tau_1 f \<noteq> NaN"
    unfolding log_tau_2_def using spr_lower[OF that] by blast
qed

theorem root_search_bounds_witness:
  "log_tau_0 \<lparr>fit_p = (\<lambda>x. case x of Fin v \<Rightarrow> Fin (v ^ 2 / 4 - v) | _ \<Rightarrow> NaN),
       roots_pdiff_plus = [NpComplex (Fin 1) (Fin 0)],
       roots_pdiff = [NpComplex (Fin 2) (Fin 0)],
       roots_pdiff_minus = [NpComplex (Fin 3) (Fin 0)]\<rparr> = Fin 1 \<and>
   log_tau_1 \<lparr>fit_p = (\<lambda>x. case x of Fin v \<Rightarrow> Fin (v ^ 2 / 4 - v) | _ \<Rightarrow> NaN),
       roots_pdiff_plus = [NpComplex (Fin 1) (Fin 0)],
       roots_pdiff = [NpComplex (Fin 2) (Fin 0)],
       roots_pdiff_minus = [NpComplex (Fin 3) (Fin 0)]\<rparr> = Fin 2 \<and>
   fl_le (Fin 1) (Fin 2) \<and> fl_le (Fin 2) (Fin 5)"
proof -
  let ?f = "\<lparr>fit_p = (\<lambda>x. case x of Fin v \<Rightarrow> Fin (v ^ 2 / 4 - v) | _ \<Rightarrow> NaN),
       roots_pdiff_plus = [NpComplex (Fin 1) (Fin 0)],
       roots_pdiff = [NpComplex (Fin 2) (Fin 0)],
       roots_pdiff_minus = [NpComplex (Fin 3) (Fin 0)]\<rparr>"
  have e0: "log_tau_0 ?f = Fin 1"
    by (simp add: log_tau_0_def smallest_positive_real_root_def posreal_def roots_cond_def
        np_isreal_def fl_gt_def)
  have e1: "log_tau_1 ?f = Fin 2"
    by (simp add: log_tau_1_def e0 smallest_positive_real_root_def posreal_def roots_cond_def
        np_isreal_def fl_gt_def)
  from root_search_bounds [of ?f] have "log_tau_0 ?f \<noteq> NaN \<longrightarrow>
      log_tau_1 ?f = NaN \<or> (fl_le (log_tau_0 ?f) (log_tau_1 ?f) \<and> fl_le (log_tau_1 ?f) (Fin 5))"
    by blast
  with e0 e1 show ?thesis by simp
qed

text \<open>What the conversion of the index gives, and when it changes the index.\<close>

lemma trunc_of_int: "trunc (of_int n) = n"
  by (simp add: trunc_def)

lemma cast_from_unit_s:
  "cast_from_unit x unit_s =
     trunc x * 10 ^ 9 + round_half_even ((x - of_int (trunc x)) * 10 ^ 9)"
proof -
  have "trunc (real_of_int r / 10 ^ 9 * 10 ^ 9) = r" for r
    using trunc_of_int[of r] by simp
  then show ?thesis by (simp add: cast_from_unit_def unit_s_def Let_def)
qed

lemma to_timedelta_Num: "to_timedelta u (Num a) \<noteq> Inr (Num b)"
  by (cases a) (auto simp: Let_def)

lemma TimedeltaIndex_id:
  "(\<forall>i\<in>set ix. i = NaT \<or> (\<exists>n. i = Td n)) \<Longrightarrow> TimedeltaIndex ix u = Inr ix"
  by (induction ix) auto

lemma TimedeltaIndex_same:
  "TimedeltaIndex ix u = Inr ix \<Longrightarrow> i \<in> set ix \<Longrightarrow> i = NaT \<or> (\<exists>n. i = Td n)"
proof (induction ix)
  case Nil
  then show ?case by simp
next
  case (Cons v ix)
  from Cons.prems(1) have v: "to_timedelta u v = Inr v" and rest: "TimedeltaIndex ix u = Inr ix"
    by (auto split: sum.splits)
  have "v = NaT \<or> (\<exists>n. v = Td n)"
    using v to_timedelta_Num[of u _ _] by (cases v) auto
  with Cons.IH[OF rest] Cons.prems(2) show ?case by auto
qed

lemma s_values_assign_index: "s_values (assign_index data) = s_values data"
  by (simp add: assign_index_def split: sum.splits)

lemma assign_index_unchanged:
  "assign_index data = data \<longleftrightarrow>
     (\<exists>e. TimedeltaIndex (s_index data) unit_s = Inl e) \<or>
     (\<forall>i\<in>set (s_index data). i = NaT \<or> (\<exists>n. i = Td n))"
proof (cases "TimedeltaIndex (s_index data) unit_s")
  case (Inl e)
  then show ?thesis by (simp add: assign_index_def)
next
  case (Inr ix)
  have "data\<lparr>s_index := ix\<rparr> = data \<longleftrightarrow> ix = s_index data"
    by (cases data) auto
  moreover have "ix = s_index data \<longleftrightarrow> (\<forall>i\<in>set (s_index data). i = NaT \<or> (\<exists>n. i = Td n))"
    using Inr TimedeltaIndex_same[of "s_index data" unit_s] TimedeltaIndex_id[of "s_index data" unit_s]
    by auto
  ultimately show ?thesis using Inr by (simp add: assign_index_def)
qed

text \<open>
  C5, as claimed: both estimators leave the caller's series, values and index, unchanged.
  A series indexed by the numbers \<open>0\<close> and \<open>1\<close> comes back indexed by the time-deltas
  \<open>0 s\<close> and \<open>1 s\<close>: the first statement of each function assigns to \<^verbatim>\<open>data.index\<close>.
\<close>

theorem estimators_convert_numeric_index:
  "fst (plot_allan_std_dev (\<lambda>d. None) \<lparr>s_index = [Num (Fin 0), Num (Fin 1)], s_values = [Fin 3, Fin 4]\<rparr>)
     = \<lparr>s_index = [Td 0, Td 1000000000], s_values = [Fin 3, Fin 4]\<rparr> \<and>
   fst (plot_autocorrelation (\<lambda>d. None) \<lparr>s_index = [Num (Fin 0), Num (Fin 1)], s_values = [Fin 3, Fin 4]\<rparr>)
     = \<lparr>s_index = [Td 0, Td 1000000000], s_values = [Fin 3, Fin 4]\<rparr>"
  by (simp add: plot_allan_std_dev_def plot_autocorrelation_def assign_index_def
      cast_from_unit_s trunc_def round_half_even_def)

text \<open>
  C5, amended: both estimators leave the values of the caller's series unchanged, and do
  the same to its index. The first statement converts the index to time-deltas (unit
  seconds) and assigns it: when the conversion raises (a value beyond the range of a
  time-delta), the caller's series is as it was; when it returns, the caller's index is
  the converted one. So the series is unchanged after the call exactly when the
  conversion raised or the index already consisted of time-deltas.
\<close>

theorem estimators_keep_values:
  "s_values (fst (plot_allan_std_dev fit data)) = s_values data \<and>
   s_values (fst (plot_autocorrelation fit' data)) = s_values data \<and>
   fst (plot_autocorrelation fit' data) = fst (plot_allan_std_dev fit data) \<and>
   (\<forall>e. TimedeltaIndex (s_index data) unit_s = Inl e \<longrightarrow>
        fst (plot_allan_std_dev fit data) = data) \<and>
   (\<forall>ix. TimedeltaIndex (s_index data) unit_s = Inr ix \<longrightarrow>
        s_index (fst (plot_allan_std_dev fit data)) = ix) \<and>
   (fst (plot_allan_std_dev fit data) = data \<longleftrightarrow>
      (\<exists>e. TimedeltaIndex (s_index data) unit_s = Inl e) \<or>
      (\<forall>i\<in>set (s_index data). i = NaT \<or> (\<exists>n. i = Td n)))"
proof -
  have a: "fst (plot_allan_std_dev fit data) = assign_index data"
    by (simp add: plot_allan_std_dev_def Let_def)
  have b: "fst (plot_autocorrelation fit' data) = assign_index data"
    by (simp add: plot_autocorrelation_def Let_def)
  have c: "assign_index data = data" if "TimedeltaIndex (s_index data) unit_s = Inl e" for e
    using that by (simp add: assign_index_def)
  have d: "s_index (assign_index data) = ix" if "TimedeltaIndex (s_index data) unit_s = Inr ix" for ix
    using that by (simp add: assign_index_def)
  show ?thesis
    unfolding a b using assign_index_unchanged[of data] c d
    by (simp add: s_values_assign_index)
qed

theorem estimators_keep_values_witness:
  "fst (plot_allan_std_dev (\<lambda>d. None)
          \<lparr>s_index = [Num (Fin 0), Num (Fin (10 ^ 10))], s_values = [Fin 3, Fin 4]\<rparr>) =
     \<lparr>s_index = [Num (Fin 0), Num (Fin (10 ^ 10))], s_values = [Fin 3, Fin 4]\<rparr> \<and>
   s_index (fst (plot_allan_std_dev (\<lambda>d. None)
          \<lparr>s_index = [Num (Fin (5224175567749775 / 2 ^ 54))], s_values = [Fin 3]\<rparr>)) =
     [Td 290000000] \<and>
   fst (plot_allan_std_dev (\<lambda>d. None) \<lparr>s_index = [Td 0, NaT, Td 5], s_values = [Fin 3, NaN, Fin 4]\<rparr>) =
     \<lparr>s_index = [Td 0, NaT, Td 5], s_values = [Fin 3, NaN, Fin 4]\<rparr>"
proof -
  have raises: "TimedeltaIndex (s_index \<lparr>s_index = [Num (Fin 0), Num (Fin (10 ^ 10))],
                    s_values = [Fin 3, Fin 4]\<rparr>) unit_s = Inl OutOfBoundsTimedelta"
    by code_simp
  have rounds: "TimedeltaIndex (s_index \<lparr>s_index = [Num (Fin (5224175567749775 / 2 ^ 54))],
                    s_values = [Fin 3]\<rparr>) unit_s = Inr [Td 290000000]"
    by code_simp
  have a: "fst (plot_allan_std_dev (\<lambda>d. None)
          \<lparr>s_index = [Num (Fin 0), Num (Fin (10 ^ 10))], s_values = [Fin 3, Fin 4]\<rparr>) =
     \<lparr>s_index = [Num (Fin 0), Num (Fin (10 ^ 10))], s_values = [Fin 3, Fin 4]\<rparr>"
    using estimators_keep_values
      [of "\<lambda>d. None" "\<lparr>s_index = [Num (Fin 0), Num (Fin (10 ^ 10))], s_values = [Fin 3, Fin 4]\<rparr>"]
      raises
    by blast
  have b: "s_index (fst (plot_allan_std_dev (\<lambda>d. None)
          \<lparr>s_index = [Num (Fin (5224175567749775 / 2 ^ 54))], s_values = [Fin 3]\<rparr>)) =
     [Td 290000000]"
    using estimators_keep_values
      [of "\<lambda>d. None" "\<lparr>s_index = [Num (Fin (5224175567749775 / 2 ^ 54))], s_values = [Fin 3]\<rparr>"]
      rounds
    by blast
  have c: "fst (plot_allan_std_dev (\<lambda>d. None)
          \<lparr>s_index = [Td 0, NaT, Td 5], s_values = [Fin 3, NaN, Fin 4]\<rparr>) =
     \<lparr>s_index = [Td 0, NaT, Td 5], s_values = [Fin 3, NaN, Fin 4]\<rparr>"
    using estimators_keep_values
      [of "\<lambda>d. None" "\<lparr>s_index = [Td 0, NaT, Td 5], s_values = [Fin 3, NaN, Fin 4]\<rparr>"]
    by simp
  from a b c show ?thesis by blast
qed

text \<open>
  C8, as claimed: a root whose imaginary part is near zero is treated as real. Without
  the root \<open>0.1 + 0i\<close> the same call returns \<open>3\<close>: \<^verbatim>\<open>np.isreal\<close> tests the imaginary part
  for equality with zero, and \<open>0.1 + 1e-12i\<close> is not real.
\<close>

theorem near_zero_imaginary_not_real:
  "\<not> np_isreal (NpComplex (Fin (1 / 10)) (Fin (1 / 10 ^ 12))) \<and>
   smallest_positive_real_root
     [NpComplex (Fin (- 2)) (Fin 0), NpComplex (Fin (1 / 10)) (Fin (1 / 10 ^ 12)),
      NpComplex (Fin 3) (Fin 0)] (Fin 0) (Fin 5) = Fin 3"
  by (simp add: smallest_positive_real_root_def posreal_def roots_cond_def np_isreal_def fl_gt_def)

text \<open>
  C8, amended: on the roots \<open>-2\<close>, \<open>0.1 + 0i\<close>, \<open>0.1 + 1e-12i\<close>, \<open>3\<close> with \<open>min = 0\<close> and
  \<open>max = 5\<close> the root finder returns \<open>0.1\<close>. A root qualifies when its imaginary part is
  exactly zero and its real part is above \<open>min\<close>; when some root qualifies, the least
  qualifying real part is chosen, and returned if it is finite and at most \<open>max\<close>
  (\<open>NaN\<close> otherwise).
\<close>

theorem root_finder_least_exactly_real:
  "smallest_positive_real_root
     [NpComplex (Fin (- 2)) (Fin 0), NpComplex (Fin (1 / 10)) (Fin 0),
      NpComplex (Fin (1 / 10)) (Fin (1 / 10 ^ 12)), NpComplex (Fin 3) (Fin 0)]
     (Fin 0) (Fin 5) = Fin (1 / 10) \<and>
   (\<forall>z. z \<in> set (roots_cond roots min_val) \<longleftrightarrow>
          z \<in> set roots \<and> np_imag z = Fin 0 \<and> fl_gt (np_real z) min_val) \<and>
   (roots_cond roots min_val \<noteq> [] \<longrightarrow>
      (\<exists>r\<in>set (map np_real (roots_cond roots min_val)).
          (\<forall>y\<in>set (map np_real (roots_cond roots min_val)). \<not> fl_lt y r) \<and>
          smallest_positive_real_root roots min_val max_val =
            (if isfinite r \<and> \<not> fl_gt r max_val then r else NaN)))"
  apply (intro conjI)
    apply (simp add: smallest_positive_real_root_def posreal_def roots_cond_def np_isreal_def fl_gt_def)
   apply (simp add: in_roots_cond)
  using spr_found apply blast
  done

theorem root_finder_least_exactly_real_witness:
  "\<exists>r\<in>set (map np_real
             (roots_cond [NpComplex (Fin 3) (Fin 0), NpComplex (Fin 2) (Fin 0),
                          NpComplex (Fin 1) (Fin 4)] (Fin 0))).
      smallest_positive_real_root
        [NpComplex (Fin 3) (Fin 0), NpComplex (Fin 2) (Fin 0), NpComplex (Fin 1) (Fin 4)]
        (Fin 0) (Fin 5) = r \<and> r = Fin 2"
  using root_finder_least_exactly_real
    [of "[NpComplex (Fin 3) (Fin 0), NpComplex (Fin 2) (Fin 0), NpComplex (Fin 1) (Fin 4)]"
        "Fin 0" "Fin 5"]
  by (simp add: roots_cond_def np_isreal_def fl_gt_def smallest_positive_real_root_def
      posreal_def)

text \<open>
  C10. Every \<open>tau\<close> of the dictionary \<^verbatim>\<open>plot_allan_std_dev\<close> returns that is not \<open>NaN\<close> lies
  between \<open>1\<close> and \<open>10^5\<close>: each root search returns \<open>NaN\<close> or a value between \<open>0\<close> and \<open>5\<close>,
  and \<open>tau\<close> is \<open>10\<close> to that power.
\<close>

theorem tau_between_1_and_1e5:
  assumes "snd (plot_allan_std_dev fit data) = Some (r, out)"
    and "t \<in> {tau_0 r, tau_1 r, tau_2 r}" and "t \<noteq> NaN"
  shows "\<exists>y. t = Fin y \<and> 1 \<le> y \<and> y \<le> 10 ^ 5"
proof -
  from assms(1) obtain f where "noise_parameters f = (r, out)"
    by (auto simp: plot_allan_std_dev_def Let_def)
  then have "r = fst (noise_parameters f)" by simp
  then have "t \<in> {pow10 (log_tau_0 f), pow10 (log_tau_1 f), pow10 (log_tau_2 f)}"
    using assms(2) noise_parameters_taus[of f] by simp
  then show ?thesis
    using pow10_range assms(3) log_tau_range[of f] by blast
qed

theorem tau_between_1_and_1e5_witness:
  "\<exists>y. tau_0 (fst (noise_parameters \<lparr>fit_p = (\<lambda>x. case x of Fin v \<Rightarrow> Fin (v ^ 2 / 4 - v) | _ \<Rightarrow> NaN),
       roots_pdiff_plus = [NpComplex (Fin 1) (Fin 0)],
       roots_pdiff = [NpComplex (Fin 2) (Fin 0)],
       roots_pdiff_minus = [NpComplex (Fin 3) (Fin 0)]\<rparr>)) = Fin y \<and> 1 \<le> y \<and> y \<le> 10 ^ 5"
  using tau_between_1_and_1e5 [of "\<lambda>d. Some \<lparr>fit_p = (\<lambda>x. case x of Fin v \<Rightarrow> Fin (v ^ 2 / 4 - v) | _ \<Rightarrow> NaN),
       roots_pdiff_plus = [NpComplex (Fin 1) (Fin 0)],
       roots_pdiff = [NpComplex (Fin 2) (Fin 0)],
       roots_pdiff_minus = [NpComplex (Fin 3) (Fin 0)]\<rparr>" "\<lparr>s_index = [], s_values = []\<rparr>"
       "fst (noise_parameters \<lparr>fit_p = (\<lambda>x. case x of Fin v \<Rightarrow> Fin (v ^ 2 / 4 - v) | _ \<Rightarrow> NaN),
       roots_pdiff_plus = [NpComplex (Fin 1) (Fin 0)],
       roots_pdiff = [NpComplex (Fin 2) (Fin 0)],
       roots_pdiff_minus = [NpComplex (Fin 3) (Fin 0)]\<rparr>)"
       "snd (noise_parameters \<lparr>fit_p = (\<lambda>x. case x of Fin v \<Rightarrow> Fin (v ^ 2 / 4 - v) | _ \<Rightarrow> NaN),
       roots_pdiff_plus = [NpComplex (Fin 1) (Fin 0)],
       roots_pdiff = [NpComplex (Fin 2) (Fin 0)],
       roots_pdiff_minus = [NpComplex (Fin 3) (Fin 0)]\<rparr>)"
       "tau_0 (fst (noise_parameters \<lparr>fit_p = (\<lambda>x. case x of Fin v \<Rightarrow> Fin (v ^ 2 / 4 - v) | _ \<Rightarrow> NaN),
       roots_pdiff_plus = [NpComplex (Fin 1) (Fin 0)],
       roots_pdiff = [NpComplex (Fin 2) (Fin 0)],
       roots_pdiff_minus = [NpComplex (Fin 3) (Fin 0)]\<rparr>))"]
  by (simp add: plot_allan_std_dev_def noise_parameters_def Let_def log_tau_0_def
      smallest_positive_real_root_def posreal_def roots_cond_def np_isreal_def fl_gt_def)

section \<open>Properties of the store construction\<close>

lemma new_cols_timestamp: "new_cols topic c = ''timestamp'' \<longleftrightarrow> c = ''timestamp''"
  by (simp add: new_cols_def)

lemma filter_relabel_key:
  assumes "\<And>n. h n = k \<longleftrightarrow> n = k"
  shows "filter (\<lambda>c. fst c = k) (map (\<lambda>c. (h (fst c), snd c)) cols) =
         filter (\<lambda>c. fst c = k) cols"
proof (induction cols)
  case Nil
  then show ?case by simp
next
  case (Cons a cols)
  show ?case
  proof (cases "fst a = k")
    case True
    then have "h (fst a) = k" using assms by simp
    then have "(h (fst a), snd a) = a" using True by (cases a) simp
    with True Cons show ?thesis by simp
  next
    case False
    then show ?thesis using Cons assms by simp
  qed
qed

lemma filter_rename_timestamp:
  "filter (\<lambda>c. fst c = ''timestamp'') (map (\<lambda>c. (new_cols topic (fst c), snd c)) cols) =
   filter (\<lambda>c. fst c = ''timestamp'') cols"
  by (rule filter_relabel_key) (rule new_cols_timestamp)

lemma column_rename:
  "column e (rename (new_cols topic) df) ''timestamp'' = column e df ''timestamp''"
  by (simp add: column_def rename_def filter_rename_timestamp)

lemma cast_from_unit_ns: "cast_from_unit x unit_ns = trunc x"
proof -
  have "trunc (x - real_of_int (trunc x)) = 0"
    by (simp add: trunc_def) linarith
  then show ?thesis by (simp add: cast_from_unit_def unit_ns_def Let_def)
qed

lemma timestamp_index_int:
  "timestamp_index (map (\<lambda>t. Fin (of_int t)) its) = map (\<lambda>t. Td (t * 1000)) its"
proof -
  have "trunc (real_of_int t * 1000) = t * 1000" for t
    using trunc_of_int[of "t * 1000"] by simp
  then show ?thesis
    by (simp add: timestamp_index_def timestamp_ns_def cast_from_unit_ns)
qed

lemma init_topic_ok:
  assumes "column AttributeError df ''timestamp'' = Inr ts"
  shows "init_topic topic df =
     Inr \<lparr>df_index = timestamp_index ts,
          df_columns = map (\<lambda>c. (new_cols topic (fst c), snd c)) (df_columns df)\<rparr>"
  using assms by (simp add: init_topic_def Let_def column_rename) (simp add: rename_def)

text \<open>
  C7. For tables that are not empty and have one \<^verbatim>\<open>timestamp\<close> column of integer
  microseconds, the construction succeeds, keeps the topics and their order, renames every
  column but \<^verbatim>\<open>timestamp\<close> to \<^verbatim>\<open>t_<topic>__f_<column>\<close>, keeps the label \<^verbatim>\<open>timestamp\<close>
  and all values, and sets the index of each table to the time-deltas of \<open>1000\<close> times
  its timestamps (nanoseconds). The index is stated for timestamps whose product with
  \<open>1000\<close> is at most \<open>2^53\<close> in size, where the float product of the code is exact.
\<close>

theorem construct_renames_and_reindexes:
  assumes "list_all (\<lambda>(topic, df). \<exists>its. its \<noteq> [] \<and>
              column AttributeError df ''timestamp'' = Inr (map (\<lambda>t. Fin (of_int t)) its)) d"
  shows "\<exists>s. PX4MessageDict d = Inr s \<and>
           list_all2 (\<lambda>(topic, df) (topic', df').
               topic' = topic \<and>
               map fst (df_columns df') =
                 map (\<lambda>c. if c = ''timestamp'' then ''timestamp'' else ''t_'' @ topic @ ''__f_'' @ c)
                   (map fst (df_columns df)) \<and>
               map snd (df_columns df') = map snd (df_columns df) \<and>
               (\<forall>its. column AttributeError df ''timestamp'' = Inr (map (\<lambda>t. Fin (of_int t)) its) \<and>
                      (\<forall>t\<in>set its. \<bar>t\<bar> * 1000 \<le> 2 ^ 53)
                   \<longrightarrow> df_index df' = map (\<lambda>t. Td (t * 1000)) its)) d s"
  using assms
proof (induction d)
  case Nil
  then show ?case by simp
next
  case (Cons a d)
  obtain topic df where a: "a = (topic, df)" by (cases a)
  from Cons.prems a obtain its where
    its: "column AttributeError df ''timestamp'' = Inr (map (\<lambda>t. Fin (of_int t)) its)"
    by auto
  from Cons obtain s where s: "PX4MessageDict d = Inr s" and
    rest: "list_all2 (\<lambda>(topic, df) (topic', df').
               topic' = topic \<and>
               map fst (df_columns df') =
                 map (\<lambda>c. if c = ''timestamp'' then ''timestamp'' else ''t_'' @ topic @ ''__f_'' @ c)
                   (map fst (df_columns df)) \<and>
               map snd (df_columns df') = map snd (df_columns df) \<and>
               (\<forall>its. column AttributeError df ''timestamp'' = Inr (map (\<lambda>t. Fin (of_int t)) its) \<and>
                      (\<forall>t\<in>set its. \<bar>t\<bar> * 1000 \<le> 2 ^ 53)
                   \<longrightarrow> df_index df' = map (\<lambda>t. Td (t * 1000)) its)) d s"
    by auto
  have "PX4MessageDict (a # d) =
      Inr ((topic, \<lparr>df_index = timestamp_index (map (\<lambda>t. Fin (of_int t)) its),
          df_columns = map (\<lambda>c. (new_cols topic (fst c), snd c)) (df_columns df)\<rparr>) # s)"
    using a s init_topic_ok[OF its] by simp
  moreover have "map fst (map (\<lambda>c. (new_cols topic (fst c), snd c)) (df_columns df)) =
      map (\<lambda>c. if c = ''timestamp'' then ''timestamp'' else ''t_'' @ topic @ ''__f_'' @ c)
                   (map fst (df_columns df))"
    by (simp add: new_cols_def comp_def)
  moreover have "map snd (map (\<lambda>c. (new_cols topic (fst c), snd c)) (df_columns df)) =
      map snd (df_columns df)"
    by (simp add: comp_def)
  moreover have "\<forall>its'. column AttributeError df ''timestamp'' = Inr (map (\<lambda>t. Fin (of_int t)) its') \<and>
        (\<forall>t\<in>set its'. \<bar>t\<bar> * 1000 \<le> 2 ^ 53)
      \<longrightarrow> timestamp_index (map (\<lambda>t. Fin (of_int t)) its) = map (\<lambda>t. Td (t * 1000)) its'"
    using its timestamp_index_int by auto
  ultimately show ?case using rest a by simp
qed

theorem construct_renames_and_reindexes_witness:
  "\<exists>s. PX4MessageDict
          [(''A'', \<lparr>df_index = [Num (Fin 0), Num (Fin 1)],
                    df_columns = [(''timestamp'', [Fin 0, Fin 10]), (''x'', [Fin 1, Fin 2])]\<rparr>)]
        = Inr s \<and>
       list_all2 (\<lambda>(topic, df) (topic', df').
               topic' = topic \<and>
               map fst (df_columns df') =
                 map (\<lambda>c. if c = ''timestamp'' then ''timestamp'' else ''t_'' @ topic @ ''__f_'' @ c)
                   (map fst (df_columns df)) \<and>
               map snd (df_columns df') = map snd (df_columns df) \<and>
               (\<forall>its. column AttributeError df ''timestamp'' = Inr (map (\<lambda>t. Fin (of_int t)) its) \<and>
                      (\<forall>t\<in>set its. \<bar>t\<bar> * 1000 \<le> 2 ^ 53)
                   \<longrightarrow> df_index df' = map (\<lambda>t. Td (t * 1000)) its))
          [(''A'', \<lparr>df_index = [Num (Fin 0), Num (Fin 1)],
                    df_columns = [(''timestamp'', [Fin 0, Fin 10]), (''x'', [Fin 1, Fin 2])]\<rparr>)] s"
proof -
  have "column AttributeError
          \<lparr>df_index = [Num (Fin 0), Num (Fin 1)],
           df_columns = [(''timestamp'', [Fin 0, Fin 10]), (''x'', [Fin 1, Fin 2])]\<rparr> ''timestamp''
        = Inr (map (\<lambda>t. Fin (of_int t)) [0, 10])"
    by (simp add: column_def)
  then have "list_all (\<lambda>(topic, df). \<exists>its. its \<noteq> [] \<and>
              column AttributeError df ''timestamp'' = Inr (map (\<lambda>t. Fin (of_int t)) its))
          [(''A'', \<lparr>df_index = [Num (Fin 0), Num (Fin 1)],
                    df_columns = [(''timestamp'', [Fin 0, Fin 10]), (''x'', [Fin 1, Fin 2])]\<rparr>)]"
    by (simp del: list.map) blast
  then show ?thesis by (rule construct_renames_and_reindexes)
qed

section \<open>Properties of the merge\<close>

lemma column_not_IOError: "e \<noteq> IOError \<Longrightarrow> column e df n \<noteq> Inl IOError"
  by (auto simp: column_def split: list.splits)

lemma ts_range_not_IOError: "ts_range self ts acc \<noteq> Inl IOError"
proof (induction ts arbitrary: acc)
  case Nil
  then show ?case by simp
next
  case (Cons t ts)
  have "column KeyError df ''timestamp'' \<noteq> Inl IOError" for df
    by (rule column_not_IOError) simp
  then show ?case using Cons
    by (auto simp: Let_def split: option.splits sum.splits)
qed

lemma np_arange_not_IOError: "np_arange a b st \<noteq> Inl IOError"
  by (auto simp: np_arange_def Let_def split: fl.splits)

lemma merge_asof_not_IOError: "merge_asof l r \<noteq> Inl IOError"
proof -
  have "column KeyError df ''timestamp'' \<noteq> Inl IOError" for df
    by (rule column_not_IOError) simp
  then show ?thesis
    by (auto simp: merge_asof_def Let_def split: sum.splits)
qed

lemma merge_topics_not_IOError: "merge_topics self m ts \<noteq> Inl IOError"
proof (induction ts arbitrary: m)
  case Nil
  then show ?case by simp
next
  case (Cons t ts)
  then show ?case using merge_asof_not_IOError
    by (auto split: option.splits sum.splits)
qed

lemma timeline_IOError: "timeline self on dt = Inl IOError \<longleftrightarrow> on = None \<and> dt = None"
proof -
  have c: "column AttributeError df ''timestamp'' \<noteq> Inl IOError" for df
    by (rule column_not_IOError) simp
  show ?thesis
    using c ts_range_not_IOError np_arange_not_IOError
    by (auto simp: timeline_def split: option.splits sum.splits prod.splits)
qed

lemma concat_filled_IOError:
  "concat_filled self topics on dt = Inl IOError \<longleftrightarrow> on = None \<and> dt = None"
proof -
  have c: "column AttributeError df ''timestamp'' \<noteq> Inl IOError" for df
    by (rule column_not_IOError) simp
  show ?thesis
    using c merge_topics_not_IOError timeline_IOError[of self on dt]
    by (auto simp: concat_filled_def concat_merged_def selected_topics_def split: sum.splits)
qed

lemma length_ffill_from: "length (ffill_from p xs) = length xs"
  by (induction xs arbitrary: p) auto

lemma length_ffill_col: "length (ffill_col xs) = length xs"
  by (simp add: ffill_col_def length_ffill_from)

lemma length_bfill_col: "length (bfill_col xs) = length xs"
  by (simp add: bfill_col_def length_ffill_col)

lemma ffill_from_keeps: "i < length xs \<Longrightarrow> \<not> isnull (xs ! i) \<Longrightarrow> ffill_from p xs ! i = xs ! i"
proof (induction xs arbitrary: p i)
  case Nil
  then show ?case by simp
next
  case (Cons x xs)
  then show ?case by (cases i) auto
qed

lemma ffill_col_keeps: "i < length xs \<Longrightarrow> \<not> isnull (xs ! i) \<Longrightarrow> ffill_col xs ! i = xs ! i"
  by (simp add: ffill_col_def ffill_from_keeps)

lemma bfill_col_keeps:
  assumes "i < length xs" "\<not> isnull (xs ! i)"
  shows "bfill_col xs ! i = xs ! i"
proof -
  let ?k = "length xs - Suc i"
  have k: "?k < length (rev xs)" using assms(1) by simp
  have r: "rev xs ! ?k = xs ! i" using assms(1) by (simp add: rev_nth)
  have "bfill_col xs ! i = ffill_col (rev xs) ! ?k"
    using assms(1) by (simp add: bfill_col_def rev_nth length_ffill_col)
  also have "\<dots> = rev xs ! ?k"
    using k r assms(2) by (simp add: ffill_col_keeps)
  finally show ?thesis using r by simp
qed

lemma fill_keeps:
  assumes "i < length xs" "\<not> isnull (xs ! i)"
  shows "ffill_col (bfill_col (ffill_col xs)) ! i = xs ! i"
proof -
  have a: "ffill_col xs ! i = xs ! i" using assms by (rule ffill_col_keeps)
  have b: "bfill_col (ffill_col xs) ! i = xs ! i"
    using assms a by (simp add: bfill_col_keeps length_ffill_col)
  show ?thesis
    using assms b by (simp add: ffill_col_keeps length_ffill_col length_bfill_col)
qed

lemma length_fill: "length (ffill_col (bfill_col (ffill_col xs))) = length xs"
  by (simp add: length_ffill_col length_bfill_col)

text \<open>Forward fill leaves a missing value only before the first value that is present.\<close>

lemma ffill_from_no_null: "\<not> isnull p \<Longrightarrow> \<not> list_ex isnull (ffill_from p xs)"
  by (induction xs arbitrary: p) auto

lemma bfill_ffill_no_null:
  assumes "list_ex (\<lambda>x. \<not> isnull x) xs"
  shows "\<not> list_ex isnull (bfill_col (ffill_col xs))"
proof -
  have last_ok: "\<not> isnull (last (ffill_from p ys))" if "list_ex (\<lambda>x. \<not> isnull x) ys" for p ys
    using that
  proof (induction ys arbitrary: p)
    case Nil
    then show ?case by simp
  next
    case (Cons y ys)
    show ?case
    proof (cases "isnull y")
      case True
      with Cons.prems have ex: "list_ex (\<lambda>x. \<not> isnull x) ys" by simp
      then have "ys \<noteq> []" by auto
      then have "ffill_from p ys \<noteq> []" by (cases ys) auto
      then show ?thesis using True Cons.IH[OF ex] by simp
    next
      case False
      have "\<not> list_ex isnull (y # ffill_from y ys)"
        using False ffill_from_no_null[of y ys] by simp
      moreover have "last (y # ffill_from y ys) \<in> set (y # ffill_from y ys)"
        by (rule last_in_set) simp
      ultimately have "\<not> isnull (last (y # ffill_from y ys))"
        unfolding list_ex_iff by blast
      then show ?thesis using False by simp
    qed
  qed
  define ys where "ys = ffill_col xs"
  have ne: "ys \<noteq> []" using assms by (cases xs) (auto simp: ys_def ffill_col_def)
  have l: "\<not> isnull (last ys)" unfolding ys_def ffill_col_def using assms by (rule last_ok)
  from ne obtain b z where bz: "ys = b @ [z]" by (cases ys rule: rev_cases) auto
  have z: "\<not> isnull z" using l bz by simp
  have "ffill_col (rev ys) = z # ffill_from z (rev b)"
    using z by (simp add: ffill_col_def bz)
  then have "\<not> list_ex isnull (ffill_col (rev ys))"
    using z ffill_from_no_null[OF z] by simp
  then show ?thesis by (simp add: bfill_col_def list_ex_iff ys_def)
qed

lemma all_isfinite_iff:
  "all_isfinite m \<longleftrightarrow> (\<forall>c\<in>set (df_columns m). \<forall>x\<in>set (snd c). isfinite x)"
  by (simp add: all_isfinite_def list_all_iff)

lemma column_Inr_any: "column e df n = Inr v \<Longrightarrow> column e' df n = Inr v"
  by (auto simp: column_def split: list.splits)

lemma column_append_nokey:
  assumes "\<forall>c\<in>set ys. fst c \<noteq> n"
  shows "filter (\<lambda>c. fst c = n) (xs @ ys) = filter (\<lambda>c. fst c = n) xs"
  using assms by (simp add: filter_empty_conv)

lemma nonkey_labels: "c \<in> set (nonkey df) \<Longrightarrow> fst c \<noteq> ''timestamp''"
  by (simp add: nonkey_def)

text \<open>Without a shared label the join appends the joined columns of the right frame.\<close>

lemma merge_asof_columns:
  assumes "merge_asof left right = Inr m'"
    and "set (map fst (nonkey left)) \<inter> set (map fst (nonkey right)) = {}"
  shows "\<exists>lk rk. column KeyError left ''timestamp'' = Inr lk \<and>
           column KeyError right ''timestamp'' = Inr rk \<and>
           df_columns m' =
             df_columns left @ map (\<lambda>c. (fst c, asof_take lk rk (snd c))) (nonkey right)"
proof -
  have ov: "filter (\<lambda>n. n \<in> set (map fst (nonkey right))) (map fst (nonkey left)) = []"
    using assms(2) by (auto simp: filter_empty_conv)
  from assms(1) obtain lk rk where
    lk: "column KeyError left ''timestamp'' = Inr lk" and
    rk: "column KeyError right ''timestamp'' = Inr rk"
    by (auto simp: merge_asof_def split: sum.splits)
  from assms(1) have
    "df_columns m' =
       df_columns left @ map (\<lambda>c. (fst c, asof_take lk rk (snd c))) (nonkey right)"
    unfolding merge_asof_def Let_def ov lk rk
    by (auto split: if_splits)
  with lk rk show ?thesis by blast
qed

lemma merge_topics_columns:
  assumes "merge_topics self m sel = Inr m'"
    and "column KeyError m ''timestamp'' = Inr lk"
    and "distinct (map fst (nonkey m) @ concat (map (topic_labels self) sel))"
  shows "df_columns m' = df_columns m @ concat (map (topic_joined self lk) sel)"
  using assms
proof (induction sel arbitrary: m)
  case Nil
  then show ?case by simp
next
  case (Cons t sel)
  from Cons.prems(1) obtain df m1 where
    df: "map_of self t = Some df" and m1: "merge_asof m df = Inr m1" and
    rest: "merge_topics self m1 sel = Inr m'"
    by (auto split: option.splits sum.splits)
  have lab: "topic_labels self t = map fst (nonkey df)"
    using df by (simp add: topic_labels_def)
  have disj: "set (map fst (nonkey m)) \<inter> set (map fst (nonkey df)) = {}"
    using Cons.prems(3) lab by auto
  from merge_asof_columns[OF m1 disj] Cons.prems(2) obtain rk where
    rk: "column KeyError df ''timestamp'' = Inr rk" and
    cols: "df_columns m1 =
             df_columns m @ map (\<lambda>c. (fst c, asof_take lk rk (snd c))) (nonkey df)"
    by auto
  have joined: "topic_joined self lk t = map (\<lambda>c. (fst c, asof_take lk rk (snd c))) (nonkey df)"
    using df rk by (simp add: topic_joined_def)
  have nk: "\<forall>c\<in>set (map (\<lambda>c. (fst c, asof_take lk rk (snd c))) (nonkey df)). fst c \<noteq> ''timestamp''"
    by (auto dest: nonkey_labels)
  have "filter (\<lambda>c. fst c = ''timestamp'') (df_columns m1) =
        filter (\<lambda>c. fst c = ''timestamp'') (df_columns m)"
    unfolding cols using nk by (rule column_append_nokey)
  then have key1: "column KeyError m1 ''timestamp'' = Inr lk"
    using Cons.prems(2) by (simp add: column_def)
  have nonkey1: "nonkey m1 = nonkey m @ map (\<lambda>c. (fst c, asof_take lk rk (snd c))) (nonkey df)"
    using nk by (simp add: nonkey_def cols filter_id_conv)
  have lab1: "map fst (nonkey m1) = map fst (nonkey m) @ topic_labels self t"
    by (simp add: nonkey1 lab comp_def)
  have d1: "distinct (map fst (nonkey m1) @ concat (map (topic_labels self) sel))"
    using Cons.prems(3) by (simp add: lab1)
  from Cons.IH[OF rest key1 d1] show ?case
    by (simp add: cols joined)
qed

lemma timeline_columns:
  "timeline self on dt = Inr m0 \<Longrightarrow> \<exists>lk. df_columns m0 = [(''timestamp'', lk)]"
  by (auto simp: timeline_def split: option.splits sum.splits prod.splits)

lemma timeline_on:
  assumes "timeline self (Some T) None = Inr m0"
    and "map_of self T = Some dfT" and "column e dfT ''timestamp'' = Inr tline"
  shows "df_columns m0 = [(''timestamp'', tline)]"
proof -
  have "column AttributeError dfT ''timestamp'' = Inr tline"
    using assms(3) by (rule column_Inr_any)
  with assms(1,2) show ?thesis by (auto simp: timeline_def)
qed

lemma merge_topics_lookup:
  "merge_topics self m sel = Inr m' \<Longrightarrow> t \<in> set sel \<Longrightarrow>
     \<exists>df rk. map_of self t = Some df \<and> column KeyError df ''timestamp'' = Inr rk"
proof (induction sel arbitrary: m)
  case Nil
  then show ?case by simp
next
  case (Cons a sel)
  from Cons.prems(1) obtain df m1 where
    df: "map_of self a = Some df" and m1: "merge_asof m df = Inr m1" and
    rest: "merge_topics self m1 sel = Inr m'"
    by (auto split: option.splits sum.splits)
  from m1 obtain rk where "column KeyError df ''timestamp'' = Inr rk"
    by (auto simp: merge_asof_def split: sum.splits)
  with df Cons.IH[OF rest] Cons.prems(2) show ?case by auto
qed

lemma topic_joined_labels:
  assumes "map_of self t = Some df" "column KeyError df ''timestamp'' = Inr rk"
  shows "map fst (topic_joined self lk t) = topic_labels self t"
  using assms by (simp add: topic_joined_def topic_labels_def comp_def)

lemma topic_joined_nokey: "c \<in> set (topic_joined self lk t) \<Longrightarrow> fst c \<noteq> ''timestamp''"
  by (auto simp: topic_joined_def dest: nonkey_labels split: option.splits sum.splits)

lemma concat_filled_columns:
  assumes "concat_filled self topics on dt = Inr m"
    and "distinct (concat (map (topic_labels self) (selected_topics self topics)))"
  shows "\<exists>m0 lk. timeline self on dt = Inr m0 \<and> df_columns m0 = [(''timestamp'', lk)] \<and>
           df_index m = timestamp_index lk \<and>
           df_columns m =
             map (\<lambda>c. (fst c, ffill_col (bfill_col (ffill_col (snd c)))))
               ((''timestamp'', lk) #
                concat (map (topic_joined self lk) (selected_topics self topics))) \<and>
           (\<forall>t\<in>set (selected_topics self topics).
              \<exists>df rk. map_of self t = Some df \<and> column KeyError df ''timestamp'' = Inr rk)"
proof -
  let ?sel = "selected_topics self topics"
  from assms(1) obtain m0 mm ts where
    m0: "timeline self on dt = Inr m0" and
    mm: "merge_topics self m0 ?sel = Inr mm" and
    ts: "column AttributeError mm ''timestamp'' = Inr ts" and
    m: "m = ffill (bfill (ffill (mm\<lparr>df_index := timestamp_index ts\<rparr>)))"
    by (auto simp: concat_filled_def concat_merged_def split: sum.splits)
  from timeline_columns[OF m0] obtain lk where lk: "df_columns m0 = [(''timestamp'', lk)]"
    by blast
  have key0: "column KeyError m0 ''timestamp'' = Inr lk"
    by (simp add: column_def lk)
  have nk0: "nonkey m0 = []" by (simp add: nonkey_def lk)
  have d0: "distinct (map fst (nonkey m0) @ concat (map (topic_labels self) ?sel))"
    using assms(2) by (simp add: nk0)
  from merge_topics_columns[OF mm key0 d0]
  have cols: "df_columns mm = (''timestamp'', lk) # concat (map (topic_joined self lk) ?sel)"
    by (simp add: lk)
  have "\<forall>c\<in>set (concat (map (topic_joined self lk) ?sel)). fst c \<noteq> ''timestamp''"
    by (auto dest: topic_joined_nokey)
  then have "filter (\<lambda>c. fst c = ''timestamp'') (df_columns mm) = [(''timestamp'', lk)]"
    by (simp add: cols filter_empty_conv)
  then have "ts = lk" using ts by (simp add: column_def)
  then have "df_index m = timestamp_index lk"
    by (simp add: m ffill_def bfill_def map_columns_def)
  moreover have "df_columns m =
      map (\<lambda>c. (fst c, ffill_col (bfill_col (ffill_col (snd c))))) (df_columns mm)"
    by (simp add: m ffill_def bfill_def map_columns_def comp_def)
  ultimately show ?thesis
    using m0 lk cols merge_topics_lookup[OF mm] by auto
qed

lemma concat_msgs_filled:
  "concat_msgs self topics on dt = Inr m \<Longrightarrow> concat_filled self topics on dt = Inr m"
  by (auto simp: concat_msgs_def split: sum.splits if_splits)

lemma concat_filled_labels:
  assumes "concat_filled self topics on dt = Inr m"
    and "distinct (concat (map (topic_labels self) (selected_topics self topics)))"
  shows "map fst (df_columns m) =
           ''timestamp'' # concat (map (topic_labels self) (selected_topics self topics))"
proof -
  from concat_filled_columns[OF assms] obtain lk where
    cols: "df_columns m =
             map (\<lambda>c. (fst c, ffill_col (bfill_col (ffill_col (snd c)))))
               ((''timestamp'', lk) #
                concat (map (topic_joined self lk) (selected_topics self topics)))" and
    ok: "\<forall>t\<in>set (selected_topics self topics).
              \<exists>df rk. map_of self t = Some df \<and> column KeyError df ''timestamp'' = Inr rk"
    by blast
  have lab: "map fst (topic_joined self lk t) = topic_labels self t"
    if "t \<in> set (selected_topics self topics)" for t
    using ok that topic_joined_labels by blast
  have eq: "map (\<lambda>t. map fst (topic_joined self lk t)) (selected_topics self topics) =
        map (topic_labels self) (selected_topics self topics)"
    by (rule map_cong) (simp_all add: lab)
  have "map fst (concat (map (topic_joined self lk) (selected_topics self topics))) =
        concat (map (\<lambda>t. map fst (topic_joined self lk t)) (selected_topics self topics))"
    by (simp add: map_concat comp_def)
  also have "\<dots> = concat (map (topic_labels self) (selected_topics self topics))"
    by (simp only: eq)
  finally have "map fst (concat (map (topic_joined self lk) (selected_topics self topics))) =
        concat (map (topic_labels self) (selected_topics self topics))" .
  then show ?thesis
    by (simp add: cols comp_def)
qed

lemma filter_unique_label:
  "distinct (map fst cols) \<Longrightarrow> (n, v) \<in> set cols \<Longrightarrow> filter (\<lambda>c. fst c = n) cols = [(n, v)]"
proof (induction cols)
  case Nil
  then show ?case by simp
next
  case (Cons c cols)
  show ?case
  proof (cases "fst c = n")
    case True
    with Cons.prems have "c = (n, v)" by (cases c) (auto simp: image_iff)
    moreover have "filter (\<lambda>c. fst c = n) cols = []"
      using Cons.prems(1) True by (auto simp: filter_empty_conv image_iff)
    ultimately show ?thesis by simp
  next
    case False
    with Cons show ?thesis by auto
  qed
qed

lemma column_unique:
  "distinct (map fst (df_columns df)) \<Longrightarrow> (n, v) \<in> set (df_columns df) \<Longrightarrow>
     column e df n = Inr v"
  by (simp add: column_def filter_unique_label)

lemma asof_pos_last:
  assumes "j < length rk" "fl_le (rk ! j) t"
    and "\<forall>j'<length rk. j < j' \<longrightarrow> \<not> fl_le (rk ! j') t"
  shows "asof_pos rk t = Some j"
proof -
  have "filter P [0..<n] \<noteq> [] \<and> last (filter P [0..<n]) = j"
    if "j < n" "P j" "\<forall>j'<n. j < j' \<longrightarrow> \<not> P j'" for P :: "nat \<Rightarrow> bool" and n
    using that
  proof (induction n)
    case 0
    then show ?case by simp
  next
    case (Suc n)
    show ?case
    proof (cases "j = n")
      case True
      with Suc.prems show ?thesis by simp
    next
      case False
      with Suc.prems have "j < n" "\<not> P n" by auto
      with Suc show ?thesis by simp
    qed
  qed
  from this[of "length rk" "\<lambda>j. fl_le (rk ! j) t"] assms
  have "filter (\<lambda>j. fl_le (rk ! j) t) [0..<length rk] \<noteq> [] \<and>
        last (filter (\<lambda>j. fl_le (rk ! j) t) [0..<length rk]) = j" by blast
  then show ?thesis
    by (cases "filter (\<lambda>j. fl_le (rk ! j) t) [0..<length rk]") (auto simp: asof_pos_def)
qed

lemma length_asof_take: "length (asof_take lk rk v) = length lk"
  by (simp add: asof_take_def)

lemma length_timestamp_index: "length (timestamp_index ts) = length ts"
  by (simp add: timestamp_index_def)

lemma topic_labels_nokey: "n \<in> set (topic_labels self t) \<Longrightarrow> n \<noteq> ''timestamp''"
  by (auto simp: topic_labels_def dest: nonkey_labels split: option.splits)

lemma topic_joined_length: "c \<in> set (topic_joined self lk t) \<Longrightarrow> length (snd c) = length lk"
  by (auto simp: topic_joined_def length_asof_take split: option.splits sum.splits)

lemma suffix_not_timestamp: "n @ ''_x'' \<noteq> ''timestamp''" "n @ ''_y'' \<noteq> ''timestamp''"
proof -
  have a: "last (n @ ''_x'') = CHR ''x''" "last (n @ ''_y'') = CHR ''y''" by simp_all
  have b: "last ''timestamp'' = CHR ''p''" by simp
  show "n @ ''_x'' \<noteq> ''timestamp''"
  proof
    assume "n @ ''_x'' = ''timestamp''"
    then have "last (n @ ''_x'') = last ''timestamp''" by (rule arg_cong)
    then show False unfolding a b by simp
  qed
  show "n @ ''_y'' \<noteq> ''timestamp''"
  proof
    assume "n @ ''_y'' = ''timestamp''"
    then have "last (n @ ''_y'') = last ''timestamp''" by (rule arg_cong)
    then show False unfolding a b by simp
  qed
qed

lemma merge_asof_key:
  assumes "merge_asof left right = Inr m'"
    and "column KeyError left ''timestamp'' = Inr lk"
    and "\<forall>c\<in>set (df_columns left). length (snd c) = length lk"
  shows "column KeyError m' ''timestamp'' = Inr lk \<and>
         (\<forall>c\<in>set (df_columns m'). length (snd c) = length lk)"
proof -
  define overlap where
    "overlap = filter (\<lambda>n. n \<in> set (map fst (nonkey right))) (map fst (nonkey left))"
  define h where "h = (\<lambda>n. if n \<in> set overlap then n @ ''_x'' else n)"
  define g where "g = (\<lambda>n. if n \<in> set overlap then n @ ''_y'' else n)"
  from assms(1,2) obtain rk where
    rk: "column KeyError right ''timestamp'' = Inr rk"
    by (auto simp: merge_asof_def split: sum.splits)
  from assms(1) have cols:
    "df_columns m' = map (\<lambda>c. (h (fst c), snd c)) (df_columns left) @
                     map (\<lambda>c. (g (fst c), asof_take lk rk (snd c))) (nonkey right)"
    unfolding merge_asof_def Let_def assms(2) rk h_def g_def overlap_def
    by (auto split: if_splits)
  have nov: "''timestamp'' \<notin> set overlap"
    by (auto simp: overlap_def dest: nonkey_labels)
  have hk: "h n = ''timestamp'' \<longleftrightarrow> n = ''timestamp''" for n
    using nov suffix_not_timestamp(1)[of n] by (auto simp: h_def)
  have gk: "g (fst c) \<noteq> ''timestamp''" if "c \<in> set (nonkey right)" for c
    using that suffix_not_timestamp(2)[of "fst c"] nonkey_labels[OF that] by (auto simp: g_def)
  have "filter (\<lambda>c. fst c = ''timestamp'')
          (map (\<lambda>c. (g (fst c), asof_take lk rk (snd c))) (nonkey right)) = []"
    using gk by (auto simp: filter_empty_conv)
  then have "filter (\<lambda>c. fst c = ''timestamp'') (df_columns m') =
        filter (\<lambda>c. fst c = ''timestamp'') (df_columns left)"
    using filter_relabel_key[of h "''timestamp''" "df_columns left", OF hk] by (simp add: cols)
  then have "column KeyError m' ''timestamp'' = Inr lk"
    using assms(2) by (simp add: column_def)
  moreover have "\<forall>c\<in>set (df_columns m'). length (snd c) = length lk"
    using assms(3) by (auto simp: cols length_asof_take)
  ultimately show ?thesis by blast
qed

lemma merge_topics_key:
  assumes "merge_topics self m sel = Inr m'"
    and "column KeyError m ''timestamp'' = Inr lk"
    and "\<forall>c\<in>set (df_columns m). length (snd c) = length lk"
  shows "column KeyError m' ''timestamp'' = Inr lk \<and>
         (\<forall>c\<in>set (df_columns m'). length (snd c) = length lk)"
  using assms
proof (induction sel arbitrary: m)
  case Nil
  then show ?case by simp
next
  case (Cons t sel)
  from Cons.prems(1) obtain df m1 where
    m1: "merge_asof m df = Inr m1" and rest: "merge_topics self m1 sel = Inr m'"
    by (auto split: option.splits sum.splits)
  from merge_asof_key[OF m1 Cons.prems(2,3)] Cons.IH[OF rest] show ?case by blast
qed

lemma concat_filled_rows:
  assumes "concat_filled self topics on dt = Inr m"
    and "timeline self on dt = Inr m0" and "df_columns m0 = [(''timestamp'', lk)]"
  shows "length (df_index m) = length lk \<and>
         (\<forall>c\<in>set (df_columns m). length (snd c) = length lk)"
proof -
  from assms(1,2) obtain mm ts where
    mm: "merge_topics self m0 (selected_topics self topics) = Inr mm" and
    ts: "column AttributeError mm ''timestamp'' = Inr ts" and
    m: "m = ffill (bfill (ffill (mm\<lparr>df_index := timestamp_index ts\<rparr>)))"
    by (auto simp: concat_filled_def concat_merged_def split: sum.splits)
  have key0: "column KeyError m0 ''timestamp'' = Inr lk"
    by (simp add: column_def assms(3))
  have len0: "\<forall>c\<in>set (df_columns m0). length (snd c) = length lk"
    by (simp add: assms(3))
  from merge_topics_key[OF mm key0 len0] have
    k: "column KeyError mm ''timestamp'' = Inr lk" and
    l: "\<forall>c\<in>set (df_columns mm). length (snd c) = length lk" by blast+
  have "ts = lk" using column_Inr_any[OF k, of AttributeError] ts by simp
  then have "length (df_index m) = length lk"
    by (simp add: m ffill_def bfill_def map_columns_def length_timestamp_index)
  moreover have "\<forall>c\<in>set (df_columns m). length (snd c) = length lk"
    using l by (auto simp: m ffill_def bfill_def map_columns_def length_ffill_col length_bfill_col)
  ultimately show ?thesis by blast
qed

lemma sorted_keys_default:
  "sorted (map fst self) \<Longrightarrow> selected_topics self None = sort (map fst self)"
  by (simp add: selected_topics_def sorted_sort_id)

text \<open>What the three fill passes do to one column.\<close>

lemma isnull_iff: "isnull x \<longleftrightarrow> x = NaN"
  by (cases x) auto

lemma ffill_from_prefix_null:
  "i < length xs \<Longrightarrow> \<forall>j\<le>i. isnull (xs ! j) \<Longrightarrow> ffill_from p xs ! i = p"
proof (induction xs arbitrary: i)
  case Nil
  then show ?case by simp
next
  case (Cons x xs)
  have x: "isnull x" using Cons.prems(2) by (auto dest: spec[of _ 0])
  show ?case
  proof (cases i)
    case 0
    then show ?thesis using x by simp
  next
    case (Suc i')
    have "\<forall>j\<le>i'. isnull (xs ! j)"
    proof (intro allI impI)
      fix j assume "j \<le> i'"
      then have "Suc j \<le> i" using Suc by simp
      with Cons.prems(2) have "isnull ((x # xs) ! Suc j)" by blast
      then show "isnull (xs ! j)" by simp
    qed
    with Cons.IH[of i'] Cons.prems(1) Suc x show ?thesis by simp
  qed
qed

lemma ffill_from_last:
  "i < length xs \<Longrightarrow> q \<le> i \<Longrightarrow> \<not> isnull (xs ! q) \<Longrightarrow>
     \<forall>j. q < j \<and> j \<le> i \<longrightarrow> isnull (xs ! j) \<Longrightarrow> ffill_from p xs ! i = xs ! q"
proof (induction xs arbitrary: p i q)
  case Nil
  then show ?case by simp
next
  case (Cons x xs)
  show ?case
  proof (cases q)
    case 0
    then have x: "\<not> isnull x" using Cons.prems(3) by simp
    show ?thesis
    proof (cases i)
      case 0
      then show ?thesis using x \<open>q = 0\<close> by simp
    next
      case (Suc i')
      have "\<forall>j\<le>i'. isnull (xs ! j)"
      proof (intro allI impI)
        fix j assume "j \<le> i'"
        then have "q < Suc j \<and> Suc j \<le> i" using Suc \<open>q = 0\<close> by simp
        with Cons.prems(4) have "isnull ((x # xs) ! Suc j)" by blast
        then show "isnull (xs ! j)" by simp
      qed
      then have "ffill_from x xs ! i' = x"
        using Cons.prems(1) Suc by (intro ffill_from_prefix_null) simp_all
      then show ?thesis using x Suc \<open>q = 0\<close> by simp
    qed
  next
    case (Suc q')
    then obtain i' where i: "i = Suc i'" using Cons.prems(2) by (cases i) auto
    have nq: "\<not> isnull (xs ! q')" using Cons.prems(3) Suc by simp
    have gap: "\<forall>j. q' < j \<and> j \<le> i' \<longrightarrow> isnull (xs ! j)"
    proof (intro allI impI)
      fix j assume "q' < j \<and> j \<le> i'"
      then have "q < Suc j \<and> Suc j \<le> i" using Suc i by simp
      with Cons.prems(4) have "isnull ((x # xs) ! Suc j)" by blast
      then show "isnull (xs ! j)" by simp
    qed
    have "ffill_from p' xs ! i' = xs ! q'" for p'
      using Cons.prems(1,2) i Suc nq gap by (intro Cons.IH) simp_all
    then show ?thesis using i Suc by simp
  qed
qed

lemma ffill_col_last:
  "i < length xs \<Longrightarrow> q \<le> i \<Longrightarrow> \<not> isnull (xs ! q) \<Longrightarrow>
     \<forall>j. q < j \<and> j \<le> i \<longrightarrow> isnull (xs ! j) \<Longrightarrow> ffill_col xs ! i = xs ! q"
  unfolding ffill_col_def by (rule ffill_from_last)

lemma ffill_col_prefix_null:
  "i < length xs \<Longrightarrow> \<forall>j\<le>i. isnull (xs ! j) \<Longrightarrow> isnull (ffill_col xs ! i)"
  unfolding ffill_col_def by (simp add: ffill_from_prefix_null)

lemma bfill_col_first:
  assumes "q < length xs" "i \<le> q" "\<not> isnull (xs ! q)"
    and "\<forall>j. i \<le> j \<and> j < q \<longrightarrow> isnull (xs ! j)"
  shows "bfill_col xs ! i = xs ! q"
proof -
  let ?n = "length xs"
  let ?r = "rev xs"
  let ?i = "?n - Suc i" and ?q = "?n - Suc q"
  have i: "i < ?n" using assms(1,2) by simp
  have rq: "?r ! ?q = xs ! q" using assms(1) by (simp add: rev_nth)
  have gap: "\<forall>j. ?q < j \<and> j \<le> ?i \<longrightarrow> isnull (?r ! j)"
  proof (intro allI impI)
    fix j assume j: "?q < j \<and> j \<le> ?i"
    then have "j < ?n" using i by arith
    then have "?r ! j = xs ! (?n - Suc j)" by (simp add: rev_nth)
    moreover have "i \<le> ?n - Suc j \<and> ?n - Suc j < q" using j i assms(1) by auto
    ultimately show "isnull (?r ! j)" using assms(4) by simp
  qed
  have "ffill_col ?r ! ?i = ?r ! ?q"
    using i assms(1,2) rq assms(3) gap by (intro ffill_col_last) simp_all
  moreover have "bfill_col xs ! i = ffill_col ?r ! ?i"
    using i by (simp add: bfill_col_def rev_nth length_ffill_col)
  ultimately show ?thesis using rq by simp
qed

lemma ffill_bfill_keeps:
  assumes "i < length ys" "\<not> isnull (ys ! i)"
  shows "ffill_col (bfill_col ys) ! i = ys ! i"
proof -
  have "bfill_col ys ! i = ys ! i" using assms by (rule bfill_col_keeps)
  then show ?thesis
    using assms by (simp add: ffill_col_keeps length_bfill_col)
qed

text \<open>The three passes: a value that is present stays, a gap takes the last value present
  before it, and a gap with no value before it the first value present after it.\<close>

lemma fill_carry:
  assumes "i < length xs" "q \<le> i" "\<not> isnull (xs ! q)"
    and "\<forall>j. q < j \<and> j \<le> i \<longrightarrow> isnull (xs ! j)"
  shows "ffill_col (bfill_col (ffill_col xs)) ! i = xs ! q"
proof -
  have a: "ffill_col xs ! i = xs ! q" using assms by (rule ffill_col_last)
  then have n: "\<not> isnull (ffill_col xs ! i)" using assms(3) by simp
  have "ffill_col (bfill_col (ffill_col xs)) ! i = ffill_col xs ! i"
    using assms(1) n by (intro ffill_bfill_keeps) (simp_all add: length_ffill_col)
  with a show ?thesis by simp
qed

lemma fill_back:
  assumes "q < length xs" "i < q" "\<not> isnull (xs ! q)" and "\<forall>j<q. isnull (xs ! j)"
  shows "ffill_col (bfill_col (ffill_col xs)) ! i = xs ! q"
proof -
  let ?f = "ffill_col xs"
  have fq: "?f ! q = xs ! q" using assms(1,3) by (simp add: ffill_col_keeps)
  have gap: "\<forall>j. i \<le> j \<and> j < q \<longrightarrow> isnull (?f ! j)"
  proof (intro allI impI)
    fix j assume j: "i \<le> j \<and> j < q"
    then have "\<forall>k\<le>j. isnull (xs ! k)" using assms(4) by auto
    then show "isnull (?f ! j)" using j assms(1) by (intro ffill_col_prefix_null) simp_all
  qed
  have b: "bfill_col ?f ! i = ?f ! q"
    using assms(1,2,3) fq gap by (intro bfill_col_first) (simp_all add: length_ffill_col)
  have "ffill_col (bfill_col ?f) ! i = bfill_col ?f ! i"
    using assms(1,2,3) b fq
    by (intro ffill_col_keeps) (simp_all add: length_ffill_col length_bfill_col)
  with b fq show ?thesis by simp
qed

lemma set_ffill_from: "set (ffill_from p xs) \<subseteq> insert p (set xs)"
  by (induction xs arbitrary: p) (auto split: if_splits)

lemma set_ffill_col: "set (ffill_col xs) \<subseteq> insert NaN (set xs)"
  unfolding ffill_col_def by (rule set_ffill_from)

lemma set_bfill_col: "set (bfill_col xs) \<subseteq> insert NaN (set xs)"
  using set_ffill_col[of "rev xs"] by (simp add: bfill_col_def)

lemma set_fill: "set (ffill_col (bfill_col (ffill_col xs))) \<subseteq> insert NaN (set xs)"
  using set_ffill_col[of xs] set_bfill_col[of "ffill_col xs"]
    set_ffill_col[of "bfill_col (ffill_col xs)"] by blast

lemma fill_no_null:
  assumes "list_ex (\<lambda>x. \<not> isnull x) xs"
  shows "\<not> list_ex isnull (ffill_col (bfill_col (ffill_col xs)))"
proof -
  define ys where "ys = bfill_col (ffill_col xs)"
  have n: "\<not> list_ex isnull ys" unfolding ys_def using assms by (rule bfill_ffill_no_null)
  have "\<not> isnull y" if "y \<in> set (ffill_col ys)" for y
  proof -
    from that obtain i where i: "i < length ys" "ffill_col ys ! i = y"
      by (auto simp: in_set_conv_nth length_ffill_col)
    have "\<not> isnull (ys ! i)" using n i(1) by (auto simp: list_ex_iff)
    then show ?thesis using i ffill_col_keeps[of i ys] by simp
  qed
  then show ?thesis by (auto simp: list_ex_iff ys_def)
qed

text \<open>The three passes leave only finite values exactly when every value present in the
  column is finite and a column with rows holds a value at all.\<close>

lemma fill_finite_iff:
  "(\<forall>x\<in>set (ffill_col (bfill_col (ffill_col xs))). isfinite x) \<longleftrightarrow>
   (\<forall>x\<in>set xs. isnull x \<or> isfinite x) \<and> (xs = [] \<or> (\<exists>x\<in>set xs. \<not> isnull x))"
  (is "?L \<longleftrightarrow> ?A \<and> ?B")
proof
  let ?f = "ffill_col (bfill_col (ffill_col xs))"
  assume L: ?L
  have A: ?A
  proof
    fix x assume "x \<in> set xs"
    then obtain i where i: "i < length xs" "xs ! i = x" by (auto simp: in_set_conv_nth)
    show "isnull x \<or> isfinite x"
    proof (cases "isnull x")
      case True
      then show ?thesis by simp
    next
      case False
      then have "?f ! i = x" using i fill_keeps[of i xs] by simp
      moreover have "?f ! i \<in> set ?f" using i(1) by (simp add: length_fill)
      ultimately show ?thesis using L by auto
    qed
  qed
  have B: ?B
  proof (rule ccontr)
    assume "\<not> ?B"
    then have ne: "xs \<noteq> []" and nul: "\<forall>x\<in>set xs. x = NaN" by (auto simp: isnull_iff)
    have "?f \<noteq> []" using ne length_fill[of xs] by auto
    then obtain y where y: "y \<in> set ?f" by (cases ?f) auto
    with set_fill[of xs] nul have "y = NaN" by auto
    with y L show False by auto
  qed
  from A B show "?A \<and> ?B" ..
next
  let ?f = "ffill_col (bfill_col (ffill_col xs))"
  assume AB: "?A \<and> ?B"
  show ?L
  proof
    fix y assume y: "y \<in> set ?f"
    then have "?f \<noteq> []" by auto
    then have "xs \<noteq> []" using length_fill[of xs] by auto
    with AB have "list_ex (\<lambda>x. \<not> isnull x) xs" by (auto simp: list_ex_iff)
    then have "\<not> list_ex isnull ?f" by (rule fill_no_null)
    with y have ny: "\<not> isnull y" by (auto simp: list_ex_iff)
    then have "y \<noteq> NaN" by (simp add: isnull_iff)
    with y set_fill[of xs] have "y \<in> set xs" by auto
    with AB ny show "isfinite y" by auto
  qed
qed

lemma fill_frame:
  "df_index (ffill (bfill (ffill mj))) = df_index mj \<and>
   df_columns (ffill (bfill (ffill mj))) =
     map (\<lambda>c. (fst c, ffill_col (bfill_col (ffill_col (snd c))))) (df_columns mj)"
  by (simp add: ffill_def bfill_def map_columns_def comp_def)

lemma concat_msgs_cases:
  "concat_msgs self topics on dt =
     (case concat_merged self topics on dt of
        Inl e \<Rightarrow> Inl e
      | Inr mj \<Rightarrow> if all_isfinite (ffill (bfill (ffill mj))) then Inr (ffill (bfill (ffill mj)))
                  else Inl AssertionError)"
  by (simp add: concat_msgs_def concat_filled_def split: sum.splits)

lemma all_isfinite_fill:
  "all_isfinite (ffill (bfill (ffill mj))) \<longleftrightarrow>
   (\<forall>c\<in>set (df_columns mj). (\<forall>x\<in>set (snd c). isnull x \<or> isfinite x) \<and>
        (snd c = [] \<or> (\<exists>x\<in>set (snd c). \<not> isnull x)))"
proof -
  have "all_isfinite (ffill (bfill (ffill mj))) \<longleftrightarrow>
        (\<forall>c\<in>set (df_columns mj).
           \<forall>x\<in>set (ffill_col (bfill_col (ffill_col (snd c)))). isfinite x)"
    by (simp add: all_isfinite_iff fill_frame)
  then show ?thesis by (simp only: fill_finite_iff)
qed

text \<open>The as-of position when no key of the right frame is at or before the timestamp, and
  the assertion a returned merge has passed.\<close>

lemma asof_pos_none: "\<forall>j<length rk. \<not> fl_le (rk ! j) t \<Longrightarrow> asof_pos rk t = None"
proof -
  assume "\<forall>j<length rk. \<not> fl_le (rk ! j) t"
  then have "filter (\<lambda>j. fl_le (rk ! j) t) [0..<length rk] = []"
    by (simp add: filter_empty_conv)
  then show ?thesis by (simp add: asof_pos_def)
qed

lemma concat_msgs_finite: "concat_msgs self topics on dt = Inr m \<Longrightarrow> all_isfinite m"
  by (auto simp: concat_msgs_def split: sum.splits if_splits)

text \<open>What the code does with the two timestamp options: it raises \<^verbatim>\<open>IOError\<close> exactly when
  neither is given, and with \<^verbatim>\<open>dt\<close> given it does not look at \<^verbatim>\<open>on\<close>.\<close>

lemma concat_msgs_IOError:
  "concat_msgs self topics None None = Inl IOError \<and>
   concat_msgs self topics on (Some d) = concat_msgs self topics None (Some d) \<and>
   (concat_msgs self topics on dt = Inl IOError \<longleftrightarrow> on = None \<and> dt = None)"
proof (intro conjI)
  show "concat_msgs self topics None None = Inl IOError"
    by (simp add: concat_msgs_def concat_filled_def concat_merged_def timeline_def)
  show "concat_msgs self topics on (Some d) = concat_msgs self topics None (Some d)"
    by (simp add: concat_msgs_def concat_filled_def concat_merged_def timeline_def)
  show "concat_msgs self topics on dt = Inl IOError \<longleftrightarrow> on = None \<and> dt = None"
    using concat_filled_IOError[of self topics on dt]
    by (auto simp: concat_msgs_def split: sum.splits)
qed

text \<open>
  C3. The claim: supplying neither \<^verbatim>\<open>on\<close> nor \<^verbatim>\<open>dt\<close> raises the configuration error, and so
  does supplying both. The docstring of \<^verbatim>\<open>concat\<close> lists the two as the timestamp options
  and notes under \<^verbatim>\<open>dt\<close> that it cannot be specified together with the other. The code with
  both, \<^verbatim>\<open>on = 'A'\<close> and \<^verbatim>\<open>dt = 1\<close> second, on a topic that spans \<open>0\<close> to \<open>3000000\<close>
  microseconds: the \<^verbatim>\<open>dt\<close> branch is taken, \<^verbatim>\<open>on\<close> is not looked at, and the table on the
  synthetic timeline \<open>0\<close>, \<open>1000000\<close> is returned.
\<close>

theorem merge_with_on_and_dt_returns:
  "concat_msgs
     [(''A'', \<lparr>df_index = [Td 0, Td 1000000000, Td 2000000000, Td 3000000000],
               df_columns = [(''timestamp'', [Fin 0, Fin 1000000, Fin 2000000, Fin 3000000]),
                             (''t_A__f_x'', [Fin 1, Fin 2, Fin 3, Fin 4])]\<rparr>)]
     None (Some ''A'') (Some 1) =
   Inr \<lparr>df_index = [Td 0, Td 1000000000],
        df_columns = [(''timestamp'', [Fin 0, Fin 1000000]),
                      (''t_A__f_x'', [Fin 1, Fin 2])]\<rparr>"
  by code_simp

theorem merge_with_on_and_dt_returns_witness:
  "concat_msgs
     [(''A'', \<lparr>df_index = [Td 0, Td 1000000000, Td 2000000000, Td 3000000000],
               df_columns = [(''timestamp'', [Fin 0, Fin 1000000, Fin 2000000, Fin 3000000]),
                             (''t_A__f_x'', [Fin 1, Fin 2, Fin 3, Fin 4])]\<rparr>)]
     None (Some ''A'') (Some 1) \<noteq> Inl IOError"
  using merge_with_on_and_dt_returns by simp

text \<open>
  C4, as claimed: the topics are joined in sorted order of their names, whatever the order
  in which the store was filled. The loop of lines 333 to 337 runs over \<^verbatim>\<open>topics\<close>, by
  default \<^verbatim>\<open>self.keys()\<close>: a store filled with \<open>B\<close> before \<open>A\<close> gives the columns of \<open>B\<close>
  first, the same topics filled in the other order give those of \<open>A\<close> first.
\<close>

theorem merge_order_is_store_order:
  "concat_msgs
     [(''B'', \<lparr>df_index = [Td 5000],
               df_columns = [(''timestamp'', [Fin 5]), (''t_B__f_y'', [Fin 7])]\<rparr>),
      (''A'', \<lparr>df_index = [Td 0, Td 10000, Td 20000],
               df_columns = [(''timestamp'', [Fin 0, Fin 10, Fin 20]),
                             (''t_A__f_x'', [Fin 1, Fin 2, Fin 3])]\<rparr>)]
     None (Some ''A'') None =
   Inr \<lparr>df_index = [Td 0, Td 10000, Td 20000],
        df_columns = [(''timestamp'', [Fin 0, Fin 10, Fin 20]),
                      (''t_B__f_y'', [Fin 7, Fin 7, Fin 7]),
                      (''t_A__f_x'', [Fin 1, Fin 2, Fin 3])]\<rparr> \<and>
   concat_msgs
     [(''A'', \<lparr>df_index = [Td 0, Td 10000, Td 20000],
               df_columns = [(''timestamp'', [Fin 0, Fin 10, Fin 20]),
                             (''t_A__f_x'', [Fin 1, Fin 2, Fin 3])]\<rparr>),
      (''B'', \<lparr>df_index = [Td 5000],
               df_columns = [(''timestamp'', [Fin 5]), (''t_B__f_y'', [Fin 7])]\<rparr>)]
     None (Some ''A'') None =
   Inr \<lparr>df_index = [Td 0, Td 10000, Td 20000],
        df_columns = [(''timestamp'', [Fin 0, Fin 10, Fin 20]),
                      (''t_A__f_x'', [Fin 1, Fin 2, Fin 3]),
                      (''t_B__f_y'', [Fin 7, Fin 7, Fin 7])]\<rparr> \<and>
   sort [''B'', ''A''] = [''A'', ''B'']"
  by code_simp

text \<open>
  C4, amended: the topics are joined in the order of the \<^verbatim>\<open>topics\<close> argument, by default
  the order of the store's keys (the order in which it was filled), which is the sorted
  order when the store was filled in sorted order. When the selected topics share no
  label, the columns of the result are \<^verbatim>\<open>timestamp\<close> followed by the columns of each
  selected topic in that order.
\<close>

theorem merge_column_order:
  assumes "concat_msgs self topics on dt = Inr m"
    and "distinct (concat (map (topic_labels self) (selected_topics self topics)))"
  shows "map fst (df_columns m) =
           ''timestamp'' # concat (map (topic_labels self) (selected_topics self topics)) \<and>
         selected_topics self (Some ts) = ts \<and>
         selected_topics self None = map fst self \<and>
         (sorted (map fst self) \<longrightarrow> selected_topics self None = sort (map fst self))"
  using concat_filled_labels[OF concat_msgs_filled[OF assms(1)] assms(2)] sorted_keys_default[of self]
  by (simp add: selected_topics_def)

theorem merge_column_order_witness:
  "map fst (df_columns \<lparr>df_index = [Td 0, Td 10000, Td 20000],
        df_columns = [(''timestamp'', [Fin 0, Fin 10, Fin 20]),
                      (''t_B__f_y'', [Fin 7, Fin 7, Fin 7]),
                      (''t_A__f_x'', [Fin 1, Fin 2, Fin 3])]\<rparr>) =
     [''timestamp'', ''t_B__f_y'', ''t_A__f_x'']"
proof -
  let ?s = "[(''B'', \<lparr>df_index = [Td 5000],
               df_columns = [(''timestamp'', [Fin 5]), (''t_B__f_y'', [Fin 7])]\<rparr>),
      (''A'', \<lparr>df_index = [Td 0, Td 10000, Td 20000],
               df_columns = [(''timestamp'', [Fin 0, Fin 10, Fin 20]),
                             (''t_A__f_x'', [Fin 1, Fin 2, Fin 3])]\<rparr>)]"
  have e: "concat_msgs ?s None (Some ''A'') None =
     Inr \<lparr>df_index = [Td 0, Td 10000, Td 20000],
        df_columns = [(''timestamp'', [Fin 0, Fin 10, Fin 20]),
                      (''t_B__f_y'', [Fin 7, Fin 7, Fin 7]),
                      (''t_A__f_x'', [Fin 1, Fin 2, Fin 3])]\<rparr>"
    by code_simp
  have d: "distinct (concat (map (topic_labels ?s) (selected_topics ?s None)))"
    by (simp add: topic_labels_def selected_topics_def nonkey_def)
  from merge_column_order[OF e d, of "[]"] show ?thesis
    by simp
qed

text \<open>
  C6. When the merge returns, every value of the returned table is finite, and the table is
  the joined table (the frame of lines 313 to 338) with its gaps closed: it has the same
  index and the same labels, and in every column each row holds the last value present at
  or before that row or, when there is none, the first value present after it; every column
  with rows holds a value. Given the joined table, the merge returns its filled copy when
  every value present in it is finite and no column with rows is missing throughout;
  otherwise a value that is not finite remains after the fills and the merge raises
  \<^verbatim>\<open>AssertionError\<close>. So does every filled table that holds a value that is not finite.
\<close>

theorem merge_returns_finite_table:
  "(concat_msgs self topics on dt = Inr m \<longrightarrow>
      (\<forall>c\<in>set (df_columns m). \<forall>x\<in>set (snd c). isfinite x) \<and>
      (\<exists>mj. concat_merged self topics on dt = Inr mj \<and>
         df_index m = df_index mj \<and> length (df_columns m) = length (df_columns mj) \<and>
         (\<forall>k<length (df_columns mj).
            \<exists>n g f. df_columns mj ! k = (n, g) \<and> df_columns m ! k = (n, f) \<and>
              length f = length g \<and>
              (\<forall>i<length g.
                 (\<exists>q<length g. \<not> isnull (g ! q)) \<and>
                 (\<forall>q\<le>i. \<not> isnull (g ! q) \<and> (\<forall>j. q < j \<and> j \<le> i \<longrightarrow> isnull (g ! j)) \<longrightarrow>
                    f ! i = g ! q) \<and>
                 (\<forall>q<length g. i < q \<and> \<not> isnull (g ! q) \<and> (\<forall>j<q. isnull (g ! j)) \<longrightarrow>
                    f ! i = g ! q))))) \<and>
   (concat_merged self topics on dt = Inr mj' \<longrightarrow>
      (if \<forall>c\<in>set (df_columns mj').
            (\<forall>x\<in>set (snd c). isnull x \<or> isfinite x) \<and>
            (snd c = [] \<or> (\<exists>x\<in>set (snd c). \<not> isnull x))
       then concat_msgs self topics on dt = Inr (ffill (bfill (ffill mj')))
       else concat_msgs self topics on dt = Inl AssertionError)) \<and>
   (concat_filled self topics on dt = Inr m' \<and>
      (\<exists>c\<in>set (df_columns m'). \<exists>x\<in>set (snd c). \<not> isfinite x) \<longrightarrow>
      concat_msgs self topics on dt = Inl AssertionError)"
proof (intro conjI impI)
  assume r: "concat_msgs self topics on dt = Inr m"
  then obtain mj where mj: "concat_merged self topics on dt = Inr mj" and
    m: "m = ffill (bfill (ffill mj))" and fin: "all_isfinite m"
    by (auto simp: concat_msgs_cases split: sum.splits if_splits)
  let ?fill = "\<lambda>xs. ffill_col (bfill_col (ffill_col xs))"
  have cols: "df_columns m = map (\<lambda>c. (fst c, ?fill (snd c))) (df_columns mj)"
    and ix: "df_index m = df_index mj"
    by (simp_all add: m fill_frame)
  show "\<forall>c\<in>set (df_columns m). \<forall>x\<in>set (snd c). isfinite x"
    using fin by (simp add: all_isfinite_iff)
  have col: "\<exists>n g f. df_columns mj ! k = (n, g) \<and> df_columns m ! k = (n, f) \<and>
              length f = length g \<and>
              (\<forall>i<length g.
                 (\<exists>q<length g. \<not> isnull (g ! q)) \<and>
                 (\<forall>q\<le>i. \<not> isnull (g ! q) \<and> (\<forall>j. q < j \<and> j \<le> i \<longrightarrow> isnull (g ! j)) \<longrightarrow>
                    f ! i = g ! q) \<and>
                 (\<forall>q<length g. i < q \<and> \<not> isnull (g ! q) \<and> (\<forall>j<q. isnull (g ! j)) \<longrightarrow>
                    f ! i = g ! q))"
    if k: "k < length (df_columns mj)" for k
  proof -
    obtain n g where ng: "df_columns mj ! k = (n, g)" by (cases "df_columns mj ! k")
    have mk: "df_columns m ! k = (n, ?fill g)" using k ng by (simp add: cols)
    have "(n, g) \<in> set (df_columns mj)" using k ng by (metis nth_mem)
    then have "\<forall>x\<in>set (?fill g). isfinite x"
      using fin by (force simp: m all_isfinite_iff fill_frame)
    then have ex: "g = [] \<or> (\<exists>x\<in>set g. \<not> isnull x)" by (simp only: fill_finite_iff)
    have e: "\<exists>q<length g. \<not> isnull (g ! q)" if "i < length g" for i
    proof -
      from that ex obtain x where "x \<in> set g" "\<not> isnull x" by auto
      then show ?thesis by (auto simp: in_set_conv_nth)
    qed
    have c: "?fill g ! i = g ! q"
      if "i < length g" "q \<le> i" "\<not> isnull (g ! q)" "\<forall>j. q < j \<and> j \<le> i \<longrightarrow> isnull (g ! j)"
      for i q
      using that by (rule fill_carry)
    have b: "?fill g ! i = g ! q"
      if "q < length g" "i < q" "\<not> isnull (g ! q)" "\<forall>j<q. isnull (g ! j)" for i q
      using that by (rule fill_back)
    from e c b have "\<forall>i<length g.
                 (\<exists>q<length g. \<not> isnull (g ! q)) \<and>
                 (\<forall>q\<le>i. \<not> isnull (g ! q) \<and> (\<forall>j. q < j \<and> j \<le> i \<longrightarrow> isnull (g ! j)) \<longrightarrow>
                    ?fill g ! i = g ! q) \<and>
                 (\<forall>q<length g. i < q \<and> \<not> isnull (g ! q) \<and> (\<forall>j<q. isnull (g ! j)) \<longrightarrow>
                    ?fill g ! i = g ! q)"
      by blast
    with ng mk length_fill[of g] show ?thesis by blast
  qed
  show "\<exists>mj. concat_merged self topics on dt = Inr mj \<and>
         df_index m = df_index mj \<and> length (df_columns m) = length (df_columns mj) \<and>
         (\<forall>k<length (df_columns mj).
            \<exists>n g f. df_columns mj ! k = (n, g) \<and> df_columns m ! k = (n, f) \<and>
              length f = length g \<and>
              (\<forall>i<length g.
                 (\<exists>q<length g. \<not> isnull (g ! q)) \<and>
                 (\<forall>q\<le>i. \<not> isnull (g ! q) \<and> (\<forall>j. q < j \<and> j \<le> i \<longrightarrow> isnull (g ! j)) \<longrightarrow>
                    f ! i = g ! q) \<and>
                 (\<forall>q<length g. i < q \<and> \<not> isnull (g ! q) \<and> (\<forall>j<q. isnull (g ! j)) \<longrightarrow>
                    f ! i = g ! q)))"
    using mj ix col by (intro exI[of _ mj]) (simp add: cols)
next
  assume mj: "concat_merged self topics on dt = Inr mj'"
  show "if \<forall>c\<in>set (df_columns mj').
            (\<forall>x\<in>set (snd c). isnull x \<or> isfinite x) \<and>
            (snd c = [] \<or> (\<exists>x\<in>set (snd c). \<not> isnull x))
       then concat_msgs self topics on dt = Inr (ffill (bfill (ffill mj')))
       else concat_msgs self topics on dt = Inl AssertionError"
    unfolding all_isfinite_fill[symmetric] by (simp add: concat_msgs_cases mj)
next
  assume "concat_filled self topics on dt = Inr m' \<and>
      (\<exists>c\<in>set (df_columns m'). \<exists>x\<in>set (snd c). \<not> isfinite x)"
  then show "concat_msgs self topics on dt = Inl AssertionError"
    by (auto simp: concat_msgs_def all_isfinite_iff)
qed

theorem merge_returns_finite_table_witness:
  "concat_merged
     [(''A'', \<lparr>df_index = [Td 0, Td 10000, Td 20000],
               df_columns = [(''timestamp'', [Fin 0, Fin 10, Fin 20]),
                             (''t_A__f_x'', [Fin 1, Fin 2, Fin 3])]\<rparr>),
      (''B'', \<lparr>df_index = [Td 5000],
               df_columns = [(''timestamp'', [Fin 5]), (''t_B__f_y'', [Fin 7])]\<rparr>)]
     None (Some ''A'') None =
   Inr \<lparr>df_index = [Td 0, Td 10000, Td 20000],
        df_columns = [(''timestamp'', [Fin 0, Fin 10, Fin 20]),
                      (''t_A__f_x'', [Fin 1, Fin 2, Fin 3]),
                      (''t_B__f_y'', [NaN, Fin 7, Fin 7])]\<rparr> \<and>
   concat_msgs
     [(''A'', \<lparr>df_index = [Td 0, Td 10000, Td 20000],
               df_columns = [(''timestamp'', [Fin 0, Fin 10, Fin 20]),
                             (''t_A__f_x'', [Fin 1, Fin 2, Fin 3])]\<rparr>),
      (''B'', \<lparr>df_index = [Td 5000],
               df_columns = [(''timestamp'', [Fin 5]), (''t_B__f_y'', [Fin 7])]\<rparr>)]
     None (Some ''A'') None =
   Inr \<lparr>df_index = [Td 0, Td 10000, Td 20000],
        df_columns = [(''timestamp'', [Fin 0, Fin 10, Fin 20]),
                      (''t_A__f_x'', [Fin 1, Fin 2, Fin 3]),
                      (''t_B__f_y'', [Fin 7, Fin 7, Fin 7])]\<rparr> \<and>
   concat_msgs
     [(''C'', \<lparr>df_index = [Td 0, Td 1000],
               df_columns = [(''timestamp'', [Fin 0, Fin 1]), (''t_C__f_z'', [NaN, NaN])]\<rparr>)]
     None (Some ''C'') None = Inl AssertionError"
proof -
  let ?s = "[(''A'', \<lparr>df_index = [Td 0, Td 10000, Td 20000],
               df_columns = [(''timestamp'', [Fin 0, Fin 10, Fin 20]),
                             (''t_A__f_x'', [Fin 1, Fin 2, Fin 3])]\<rparr>),
      (''B'', \<lparr>df_index = [Td 5000],
               df_columns = [(''timestamp'', [Fin 5]), (''t_B__f_y'', [Fin 7])]\<rparr>)]"
  let ?mj = "\<lparr>df_index = [Td 0, Td 10000, Td 20000],
        df_columns = [(''timestamp'', [Fin 0, Fin 10, Fin 20]),
                      (''t_A__f_x'', [Fin 1, Fin 2, Fin 3]),
                      (''t_B__f_y'', [NaN, Fin 7, Fin 7])]\<rparr>"
  let ?m = "\<lparr>df_index = [Td 0, Td 10000, Td 20000],
        df_columns = [(''timestamp'', [Fin 0, Fin 10, Fin 20]),
                      (''t_A__f_x'', [Fin 1, Fin 2, Fin 3]),
                      (''t_B__f_y'', [Fin 7, Fin 7, Fin 7])]\<rparr>"
  let ?c = "[(''C'', \<lparr>df_index = [Td 0, Td 1000],
               df_columns = [(''timestamp'', [Fin 0, Fin 1]), (''t_C__f_z'', [NaN, NaN])]\<rparr>)]"
  let ?mc = "\<lparr>df_index = [Td 0, Td 1000],
               df_columns = [(''timestamp'', [Fin 0, Fin 1]), (''t_C__f_z'', [NaN, NaN])]\<rparr>"
  have e: "concat_merged ?s None (Some ''A'') None = Inr ?mj"
    by code_simp
  have f: "ffill (bfill (ffill ?mj)) = ?m"
    by code_simp
  have ec: "concat_merged ?c None (Some ''C'') None = Inr ?mc"
    by code_simp
  note th = merge_returns_finite_table[of ?s None "Some ''A''" None ?m ?mj ?m,
      THEN conjunct2, THEN conjunct1, rule_format, OF e]
  have r: "concat_msgs ?s None (Some ''A'') None = Inr ?m"
    using th unfolding f by simp
  note tc = merge_returns_finite_table[of ?c None "Some ''C''" None ?mc ?mc ?mc,
      THEN conjunct2, THEN conjunct1, rule_format, OF ec]
  have a: "concat_msgs ?c None (Some ''C'') None = Inl AssertionError"
    using tc by simp
  from e r a show ?thesis by (intro conjI)
qed

text \<open>
  C9, as claimed: at every timestamp of the reference topic, each other topic's column
  holds its most recent sample at or before that timestamp. Topic \<open>B\<close> has its only sample
  at \<open>5\<close>; at the timestamp \<open>0\<close> of \<open>A\<close>, where \<open>B\<close> has no sample at or before, the merged
  column holds \<open>7\<close>, back-filled from the later sample.
\<close>

theorem merge_backfills_leading_gap:
  "concat_msgs
     [(''A'', \<lparr>df_index = [Td 0, Td 10000, Td 20000],
               df_columns = [(''timestamp'', [Fin 0, Fin 10, Fin 20]),
                             (''t_A__f_x'', [Fin 1, Fin 2, Fin 3])]\<rparr>),
      (''B'', \<lparr>df_index = [Td 5000],
               df_columns = [(''timestamp'', [Fin 5]), (''t_B__f_y'', [Fin 7])]\<rparr>)]
     None (Some ''A'') None =
   Inr \<lparr>df_index = [Td 0, Td 10000, Td 20000],
        df_columns = [(''timestamp'', [Fin 0, Fin 10, Fin 20]),
                      (''t_A__f_x'', [Fin 1, Fin 2, Fin 3]),
                      (''t_B__f_y'', [Fin 7, Fin 7, Fin 7])]\<rparr> \<and>
   asof_pos [Fin 5] (Fin 0) = None \<and> \<not> fl_le (Fin 5) (Fin 0)"
  by code_simp

text \<open>
  C9, amended: when the merge on a reference topic \<open>T\<close> returns, the table has exactly as
  many rows as \<open>T\<close> has samples (its index and every column). When the selected topics
  share no label, the column \<open>v'\<close> of the table for a column \<open>v\<close> of a selected topic \<open>B\<close>
  is the as-of column \<open>a\<close> of \<open>v\<close> with its gaps closed. At each timeline timestamp \<open>a\<close>
  holds the value of the most recent sample of \<open>B\<close> at or before it (a value that may
  itself be missing), and a missing value where \<open>B\<close> has no such sample. At each row \<open>v'\<close>
  holds the last value present in \<open>a\<close> at or before that row or, when there is none, the
  first value present in \<open>a\<close> after it. Some value of \<open>a\<close> is present, and every value of
  \<open>v'\<close> is finite.
\<close>

theorem merge_on_reference_carries_forward:
  assumes "concat_msgs self topics (Some T) None = Inr m"
    and "map_of self T = Some dfT"
    and "column KeyError dfT ''timestamp'' = Inr tline"
  shows "length (df_index m) = length tline \<and>
         (\<forall>c\<in>set (df_columns m). length (snd c) = length tline) \<and>
         (distinct (concat (map (topic_labels self) (selected_topics self topics))) \<longrightarrow>
          (\<forall>B dfB tsB n v.
            B \<in> set (selected_topics self topics) \<and> map_of self B = Some dfB \<and>
            column KeyError dfB ''timestamp'' = Inr tsB \<and> (n, v) \<in> set (nonkey dfB) \<longrightarrow>
            (\<exists>a v'. column KeyError m n = Inr v' \<and>
               length a = length tline \<and> length v' = length tline \<and>
               (\<forall>i<length tline.
                  (\<forall>j<length tsB.
                      fl_le (tsB ! j) (tline ! i) \<and>
                      (\<forall>j'<length tsB. j < j' \<longrightarrow> \<not> fl_le (tsB ! j') (tline ! i)) \<longrightarrow>
                      a ! i = v ! j) \<and>
                  ((\<forall>j<length tsB. \<not> fl_le (tsB ! j) (tline ! i)) \<longrightarrow> a ! i = NaN) \<and>
                  (\<exists>q<length tline. \<not> isnull (a ! q)) \<and>
                  (\<forall>q\<le>i. \<not> isnull (a ! q) \<and> (\<forall>r. q < r \<and> r \<le> i \<longrightarrow> isnull (a ! r)) \<longrightarrow>
                      v' ! i = a ! q) \<and>
                  (\<forall>q<length tline. i < q \<and> \<not> isnull (a ! q) \<and> (\<forall>r<q. isnull (a ! r)) \<longrightarrow>
                      v' ! i = a ! q) \<and>
                  isfinite (v' ! i)))))"
proof -
  let ?sel = "selected_topics self topics"
  let ?fill = "\<lambda>xs. ffill_col (bfill_col (ffill_col xs))"
  have filled: "concat_filled self topics (Some T) None = Inr m"
    using assms(1) by (rule concat_msgs_filled)
  have fin: "all_isfinite m" using assms(1) by (rule concat_msgs_finite)
  from filled obtain m0 where m0: "timeline self (Some T) None = Inr m0"
    by (auto simp: concat_filled_def concat_merged_def split: sum.splits)
  have key: "df_columns m0 = [(''timestamp'', tline)]"
    using m0 assms(2,3) by (rule timeline_on)
  from concat_filled_rows[OF filled m0 key] have
    rows: "length (df_index m) = length tline" and
    lens: "\<forall>c\<in>set (df_columns m). length (snd c) = length tline" by blast+
  have carry: "\<exists>a v'. column KeyError m n = Inr v' \<and>
               length a = length tline \<and> length v' = length tline \<and>
               (\<forall>i<length tline.
                  (\<forall>j<length tsB.
                      fl_le (tsB ! j) (tline ! i) \<and>
                      (\<forall>j'<length tsB. j < j' \<longrightarrow> \<not> fl_le (tsB ! j') (tline ! i)) \<longrightarrow>
                      a ! i = v ! j) \<and>
                  ((\<forall>j<length tsB. \<not> fl_le (tsB ! j) (tline ! i)) \<longrightarrow> a ! i = NaN) \<and>
                  (\<exists>q<length tline. \<not> isnull (a ! q)) \<and>
                  (\<forall>q\<le>i. \<not> isnull (a ! q) \<and> (\<forall>r. q < r \<and> r \<le> i \<longrightarrow> isnull (a ! r)) \<longrightarrow>
                      v' ! i = a ! q) \<and>
                  (\<forall>q<length tline. i < q \<and> \<not> isnull (a ! q) \<and> (\<forall>r<q. isnull (a ! r)) \<longrightarrow>
                      v' ! i = a ! q) \<and>
                  isfinite (v' ! i))"
    if d: "distinct (concat (map (topic_labels self) ?sel))" and
      B: "B \<in> set ?sel" "map_of self B = Some dfB"
      "column KeyError dfB ''timestamp'' = Inr tsB" "(n, v) \<in> set (nonkey dfB)"
    for B dfB tsB n v
  proof -
    from concat_filled_columns[OF filled d] m0 key have
      cols: "df_columns m = map (\<lambda>c. (fst c, ?fill (snd c)))
               ((''timestamp'', tline) # concat (map (topic_joined self tline) ?sel))"
      by auto
    have labels:
      "map fst (df_columns m) = ''timestamp'' # concat (map (topic_labels self) ?sel)"
      using filled d by (rule concat_filled_labels)
    have dist: "distinct (map fst (df_columns m))"
      unfolding labels using d by (auto dest: topic_labels_nokey)
    define a where "a = asof_take tline tsB v"
    have la: "length a = length tline" by (simp add: a_def length_asof_take)
    have lf: "length (?fill a) = length tline" by (simp add: length_fill la)
    have "(n, a) \<in> set (topic_joined self tline B)"
      using B(2,3,4) by (force simp: topic_joined_def a_def)
    then have "(n, a) \<in> set (concat (map (topic_joined self tline) ?sel))"
      using B(1) by auto
    then have mem: "(n, ?fill a) \<in> set (df_columns m)"
      unfolding cols by force
    then have col: "column KeyError m n = Inr (?fill a)"
      using dist by (rule column_unique[rotated])
    have allfin: "\<forall>x\<in>set (?fill a). isfinite x"
      using fin mem by (force simp: all_isfinite_iff)
    then have ex: "a = [] \<or> (\<exists>x\<in>set a. \<not> isnull x)" by (simp only: fill_finite_iff)
    have asof: "a ! i = v ! j"
      if "i < length tline" "j < length tsB" "fl_le (tsB ! j) (tline ! i)"
        "\<forall>j'<length tsB. j < j' \<longrightarrow> \<not> fl_le (tsB ! j') (tline ! i)" for i j
    proof -
      have "asof_pos tsB (tline ! i) = Some j"
        using that(2,3,4) by (rule asof_pos_last)
      then show ?thesis using that(1) by (simp add: a_def asof_take_def)
    qed
    have none: "a ! i = NaN"
      if "i < length tline" "\<forall>j<length tsB. \<not> fl_le (tsB ! j) (tline ! i)" for i
    proof -
      have "asof_pos tsB (tline ! i) = None" using that(2) by (rule asof_pos_none)
      then show ?thesis using that(1) by (simp add: a_def asof_take_def)
    qed
    have some: "\<exists>q<length tline. \<not> isnull (a ! q)" if "i < length tline" for i
    proof -
      from that la ex obtain x where "x \<in> set a" "\<not> isnull x" by auto
      then show ?thesis using la by (auto simp: in_set_conv_nth)
    qed
    have c: "?fill a ! i = a ! q"
      if "i < length tline" "q \<le> i" "\<not> isnull (a ! q)"
        "\<forall>r. q < r \<and> r \<le> i \<longrightarrow> isnull (a ! r)" for i q
      using that la by (intro fill_carry) simp_all
    have b: "?fill a ! i = a ! q"
      if "q < length tline" "i < q" "\<not> isnull (a ! q)" "\<forall>r<q. isnull (a ! r)" for i q
      using that la by (intro fill_back) simp_all
    have f: "isfinite (?fill a ! i)" if "i < length tline" for i
      using allfin that lf by (metis nth_mem)
    from asof none some c b f have "\<forall>i<length tline.
                  (\<forall>j<length tsB.
                      fl_le (tsB ! j) (tline ! i) \<and>
                      (\<forall>j'<length tsB. j < j' \<longrightarrow> \<not> fl_le (tsB ! j') (tline ! i)) \<longrightarrow>
                      a ! i = v ! j) \<and>
                  ((\<forall>j<length tsB. \<not> fl_le (tsB ! j) (tline ! i)) \<longrightarrow> a ! i = NaN) \<and>
                  (\<exists>q<length tline. \<not> isnull (a ! q)) \<and>
                  (\<forall>q\<le>i. \<not> isnull (a ! q) \<and> (\<forall>r. q < r \<and> r \<le> i \<longrightarrow> isnull (a ! r)) \<longrightarrow>
                      ?fill a ! i = a ! q) \<and>
                  (\<forall>q<length tline. i < q \<and> \<not> isnull (a ! q) \<and> (\<forall>r<q. isnull (a ! r)) \<longrightarrow>
                      ?fill a ! i = a ! q) \<and>
                  isfinite (?fill a ! i)"
      by blast
    with col la lf show ?thesis by blast
  qed
  from rows lens carry show ?thesis by blast
qed

theorem merge_on_reference_carries_forward_witness:
  "concat_msgs
     [(''A'', \<lparr>df_index = [Td 0, Td 10000, Td 20000],
               df_columns = [(''timestamp'', [Fin 0, Fin 10, Fin 20]),
                             (''t_A__f_x'', [Fin 1, Fin 2, Fin 3])]\<rparr>),
      (''B'', \<lparr>df_index = [Td 5000, Td 15000],
               df_columns = [(''timestamp'', [Fin 5, Fin 15]), (''t_B__f_y'', [NaN, Fin 9])]\<rparr>)]
     None (Some ''A'') None =
   Inr \<lparr>df_index = [Td 0, Td 10000, Td 20000],
        df_columns = [(''timestamp'', [Fin 0, Fin 10, Fin 20]),
                      (''t_A__f_x'', [Fin 1, Fin 2, Fin 3]),
                      (''t_B__f_y'', [Fin 9, Fin 9, Fin 9])]\<rparr> \<and>
   length (df_index \<lparr>df_index = [Td 0, Td 10000, Td 20000],
        df_columns = [(''timestamp'', [Fin 0, Fin 10, Fin 20]),
                      (''t_A__f_x'', [Fin 1, Fin 2, Fin 3]),
                      (''t_B__f_y'', [Fin 9, Fin 9, Fin 9])]\<rparr>) = 3 \<and>
   (\<exists>a v'. column KeyError \<lparr>df_index = [Td 0, Td 10000, Td 20000],
        df_columns = [(''timestamp'', [Fin 0, Fin 10, Fin 20]),
                      (''t_A__f_x'', [Fin 1, Fin 2, Fin 3]),
                      (''t_B__f_y'', [Fin 9, Fin 9, Fin 9])]\<rparr> ''t_B__f_y'' = Inr v' \<and>
      a ! 0 = NaN \<and> a ! 1 = NaN \<and> a ! 2 = Fin 9 \<and>
      v' ! 0 = Fin 9 \<and> v' ! 1 = Fin 9 \<and> v' ! 2 = Fin 9)"
proof -
  let ?dfA = "\<lparr>df_index = [Td 0, Td 10000, Td 20000],
               df_columns = [(''timestamp'', [Fin 0, Fin 10, Fin 20]),
                             (''t_A__f_x'', [Fin 1, Fin 2, Fin 3])]\<rparr>"
  let ?dfB = "\<lparr>df_index = [Td 5000, Td 15000],
               df_columns = [(''timestamp'', [Fin 5, Fin 15]), (''t_B__f_y'', [NaN, Fin 9])]\<rparr>"
  let ?s = "[(''A'', ?dfA), (''B'', ?dfB)]"
  let ?m = "\<lparr>df_index = [Td 0, Td 10000, Td 20000],
        df_columns = [(''timestamp'', [Fin 0, Fin 10, Fin 20]),
                      (''t_A__f_x'', [Fin 1, Fin 2, Fin 3]),
                      (''t_B__f_y'', [Fin 9, Fin 9, Fin 9])]\<rparr>"
  let ?tl = "[Fin 0, Fin 10, Fin 20]"
  let ?ts = "[Fin 5, Fin 15]"
  let ?v = "[NaN, Fin 9]"
  have e: "concat_msgs ?s None (Some ''A'') None = Inr ?m"
    by code_simp
  have a: "map_of ?s ''A'' = Some ?dfA" by simp
  have k: "column KeyError ?dfA ''timestamp'' = Inr ?tl"
    by (simp add: column_def)
  have d: "distinct (concat (map (topic_labels ?s) (selected_topics ?s None)))"
    by (simp add: topic_labels_def selected_topics_def nonkey_def)
  note th = merge_on_reference_carries_forward[OF e a k]
  from th have rows: "length (df_index ?m) = 3" by simp
  have b: "''B'' \<in> set (selected_topics ?s None) \<and> map_of ?s ''B'' = Some ?dfB \<and>
      column KeyError ?dfB ''timestamp'' = Inr ?ts \<and>
      (''t_B__f_y'', ?v) \<in> set (nonkey ?dfB)"
    by (simp add: selected_topics_def column_def nonkey_def)
  from th d b obtain a v' where v: "column KeyError ?m ''t_B__f_y'' = Inr v'" and
    c: "\<forall>i<length ?tl.
          (\<forall>j<length ?ts.
              fl_le (?ts ! j) (?tl ! i) \<and>
              (\<forall>j'<length ?ts. j < j' \<longrightarrow> \<not> fl_le (?ts ! j') (?tl ! i)) \<longrightarrow>
              a ! i = ?v ! j) \<and>
          ((\<forall>j<length ?ts. \<not> fl_le (?ts ! j) (?tl ! i)) \<longrightarrow> a ! i = NaN) \<and>
          (\<exists>q<length ?tl. \<not> isnull (a ! q)) \<and>
          (\<forall>q\<le>i. \<not> isnull (a ! q) \<and> (\<forall>r. q < r \<and> r \<le> i \<longrightarrow> isnull (a ! r)) \<longrightarrow>
              v' ! i = a ! q) \<and>
          (\<forall>q<length ?tl. i < q \<and> \<not> isnull (a ! q) \<and> (\<forall>r<q. isnull (a ! r)) \<longrightarrow>
              v' ! i = a ! q) \<and>
          isfinite (v' ! i)"
    by blast
  have asof: "a ! i = ?v ! j"
    if "i < length ?tl" "j < length ?ts" "fl_le (?ts ! j) (?tl ! i)"
      "\<forall>j'<length ?ts. j < j' \<longrightarrow> \<not> fl_le (?ts ! j') (?tl ! i)" for i j
    using c that by blast
  have none: "a ! i = NaN"
    if "i < length ?tl" "\<forall>j<length ?ts. \<not> fl_le (?ts ! j) (?tl ! i)" for i
    using c that by blast
  have cfl: "v' ! i = a ! q"
    if "i < length ?tl" "q \<le> i" "\<not> isnull (a ! q)"
      "\<forall>r. q < r \<and> r \<le> i \<longrightarrow> isnull (a ! r)" for i q
    using c that by blast
  have bfl: "v' ! i = a ! q"
    if "i < length ?tl" "q < length ?tl" "i < q" "\<not> isnull (a ! q)"
      "\<forall>r<q. isnull (a ! r)" for i q
    using c that by blast
  have two: "r < 2 \<longleftrightarrow> r = 0 \<or> r = 1" for r :: nat by auto
  have a0: "a ! 0 = NaN"
    by (rule none) (auto simp: fl_le_def less_Suc_eq)
  have "a ! 1 = ?v ! 0"
    by (rule asof) (auto simp: fl_le_def less_Suc_eq)
  then have a1: "a ! 1 = NaN" by simp
  have "a ! 2 = ?v ! 1"
    by (rule asof) (auto simp: fl_le_def less_Suc_eq)
  then have a2: "a ! 2 = Fin 9" by simp
  have gap: "\<forall>r<2. isnull (a ! r)" using a0 a1 by (auto simp: two)
  have n2: "\<not> isnull (a ! 2)" using a2 by simp
  have "v' ! 0 = a ! 2" using n2 gap by (intro bfl) simp_all
  then have v0: "v' ! 0 = Fin 9" using a2 by simp
  have "v' ! 1 = a ! 2" using n2 gap by (intro bfl) simp_all
  then have v1: "v' ! 1 = Fin 9" using a2 by simp
  have "v' ! 2 = a ! 2" using n2 by (intro cfl) auto
  then have v2: "v' ! 2 = Fin 9" using a2 by simp
  from e rows v a0 a1 a2 v0 v1 v2 show ?thesis by blast
qed

end
